theory Spec2Isabelle
  imports Complex_Main
begin

section \<open>Colour values and the colour utilities\<close>

text \<open>
  The model follows \<^verbatim>\<open>src/core/storage.js\<close> and \<^verbatim>\<open>src/utils/colorUtils.js\<close>;
  \<^verbatim>\<open>app.js\<close> holds the same functions in their earlier, single-file form. The last
  section follows the quantizer of \<^verbatim>\<open>imageWorker.js\<close>.

  A pixel colour is the JavaScript object \<^verbatim>\<open>{ r, g, b }\<close>. The channels are JavaScript
  numbers; every colour the program builds comes from a byte of an image buffer or from
  an average of such bytes, so the channels are natural numbers. Nothing below assumes
  that they stay under 256.
\<close>

record rgb =
  r :: nat
  g :: nat
  b :: nat

text \<open>A palette entry is the object \<^verbatim>\<open>{ hex, label }\<close>.\<close>

record paletteEntry =
  hex :: string
  label :: string

text \<open>
  The exceptions the modelled code can raise: reading a property of \<^verbatim>\<open>undefined\<close>
  (TypeError), \<^verbatim>\<open>Array(n)\<close> with an invalid length (RangeError), and
  \<^verbatim>\<open>getImageData\<close> on an empty rectangle (IndexSizeError). \<open>ReadPastEnd\<close> is not a
  JavaScript exception: it marks a read outside an image buffer, which gives
  \<^verbatim>\<open>undefined\<close> in JavaScript and which no buffer of the right length allows.
\<close>

datatype error = TypeError | RangeError | IndexSizeError | ReadPastEnd

subsection \<open>rgbToHex\<close>

definition hexDigit :: "nat \<Rightarrow> char" where
  "hexDigit d = ''0123456789abcdef'' ! d"

text \<open>\<^verbatim>\<open>x.toString(16)\<close> on a non-negative integer: lower-case digits, no padding.\<close>

fun toString16 :: "nat \<Rightarrow> string" where
  "toString16 n =
     (if n < 16 then [hexDigit n] else toString16 (n div 16) @ [hexDigit (n mod 16)])"

declare toString16.simps [simp del]

definition channelHex :: "nat \<Rightarrow> string" where
  "channelHex x = (let h = toString16 x in if length h = 1 then ''0'' @ h else h)"

definition rgbToHex :: "nat \<Rightarrow> nat \<Rightarrow> nat \<Rightarrow> string" where
  "rgbToHex x y z = ''#'' @ concat (map channelHex [x, y, z])"

subsection \<open>hexToRgb\<close>

text \<open>
  The character class \<^verbatim>\<open>[a-f\d]\<close> under the flag \<^verbatim>\<open>i\<close>: a decimal digit or a
  letter a to f in either case.
\<close>

definition digitVal :: "char \<Rightarrow> nat option" where
  "digitVal c =
     (let n = of_char c :: nat in
      if 48 \<le> n \<and> n \<le> 57 then Some (n - 48)
      else if 97 \<le> n \<and> n \<le> 102 then Some (n - 87)
      else if 65 \<le> n \<and> n \<le> 70 then Some (n - 55)
      else None)"

definition isHexDigit :: "char \<Rightarrow> bool" where
  "isHexDigit c = (digitVal c \<noteq> None)"

text \<open>
  \<^verbatim>\<open>/^#?([a-f\d]{2})([a-f\d]{2})([a-f\d]{2})$/i.exec(hex)\<close>: an optional leading
  \<^verbatim>\<open>#\<close>, then exactly six hexadecimal digits up to the end of the string. The result
  is the three captured groups, or \<open>None\<close> for \<^verbatim>\<open>null\<close>.
\<close>

definition hexPattern :: "string \<Rightarrow> (string \<times> string \<times> string) option" where
  "hexPattern s =
     (let t = (case s of c # cs \<Rightarrow> if c = CHR ''#'' then cs else s | [] \<Rightarrow> s) in
      if length t = 6 \<and> list_all isHexDigit t
      then Some (take 2 t, take 2 (drop 2 t), drop 4 t)
      else None)"

text \<open>\<^verbatim>\<open>parseInt(group, 16)\<close> on a string of hexadecimal digits.\<close>

definition parseInt16 :: "string \<Rightarrow> nat" where
  "parseInt16 s = foldl (\<lambda>acc c. 16 * acc + (case digitVal c of Some d \<Rightarrow> d | None \<Rightarrow> 0)) 0 s"

definition hexToRgb :: "string \<Rightarrow> rgb" where
  "hexToRgb s =
     (case hexPattern s of
        Some (x, y, z) \<Rightarrow> \<lparr>r = parseInt16 x, g = parseInt16 y, b = parseInt16 z\<rparr>
      | None \<Rightarrow> \<lparr>r = 255, g = 255, b = 255\<rparr>)"

subsection \<open>distanceBetweenColors\<close>

definition distanceBetweenColors :: "rgb \<Rightarrow> rgb \<Rightarrow> real" where
  "distanceBetweenColors color1 color2 =
     (let dr = int (r color1) - int (r color2);
          dg = int (g color1) - int (g color2);
          db = int (b color1) - int (b color2)
      in sqrt (real_of_int (dr * dr + dg * dg + db * db)))"

section \<open>Median cut on the main thread\<close>

text \<open>
  A box is a JavaScript array of pixel objects. \<^verbatim>\<open>Array.prototype.pop\<close> on an empty
  array returns \<^verbatim>\<open>undefined\<close>, and splitBox pushes what pop returns, so an element of a
  box is a colour or \<^verbatim>\<open>undefined\<close> (\<open>None\<close>).
\<close>

type_synonym box = "rgb option list"

text \<open>
  The loop \<^verbatim>\<open>for (let pixel of pixels)\<close> that keeps the running minimum and maximum of
  each channel, as getColorRange and splitBox both have it. The accumulator is
  \<open>(minR, maxR, minG, maxG, minB, maxB)\<close>. Reading \<^verbatim>\<open>pixel.r\<close> of \<^verbatim>\<open>undefined\<close>
  throws.
\<close>

type_synonym bounds = "nat \<times> nat \<times> nat \<times> nat \<times> nat \<times> nat"

fun scanBounds :: "box \<Rightarrow> bounds \<Rightarrow> error + bounds" where
  "scanBounds [] acc = Inr acc"
| "scanBounds (None # ps) acc = Inl TypeError"
| "scanBounds (Some p # ps) (minR, maxR, minG, maxG, minB, maxB) =
     scanBounds ps (min minR (r p), max maxR (r p),
                    min minG (g p), max maxG (g p),
                    min minB (b p), max maxB (b p))"

definition initBounds :: bounds where
  "initBounds = (255, 0, 255, 0, 255, 0)"

definition getColorRange :: "box \<Rightarrow> error + int" where
  "getColorRange pixels =
     (if length pixels = 0 then Inr 0
      else case scanBounds pixels initBounds of
             Inl e \<Rightarrow> Inl e
           | Inr (minR, maxR, minG, maxG, minB, maxB) \<Rightarrow>
               Inr (max (max (int maxR - int minR) (int maxG - int minG))
                        (int maxB - int minB)))"

datatype axis = AxisR | AxisG | AxisB

text \<open>\<^verbatim>\<open>pixel[axis]\<close>; on \<^verbatim>\<open>undefined\<close> it throws.\<close>

fun chan :: "axis \<Rightarrow> rgb \<Rightarrow> nat" where
  "chan AxisR p = r p"
| "chan AxisG p = g p"
| "chan AxisB p = b p"

text \<open>
  \<^verbatim>\<open>pixel[axis] < mids[axis]\<close>, with the midpoint \<^verbatim>\<open>(min + max) / 2\<close> kept as a
  rational number. In splitBox the test is reached only after the first loop has read
  \<^verbatim>\<open>pixel.r\<close> of every element, so the case of an \<^verbatim>\<open>undefined\<close> element, where the
  source would throw, never arises there (lemma \<open>scanBounds_Inr_defined\<close>).
\<close>

definition belowMid :: "axis \<Rightarrow> rat \<Rightarrow> rgb option \<Rightarrow> bool" where
  "belowMid ax mid px = (case px of Some p \<Rightarrow> of_nat (chan ax p) < mid | None \<Rightarrow> False)"

text \<open>\<^verbatim>\<open>box.pop()\<close>: the removed last element (\<^verbatim>\<open>undefined\<close> when empty) and the rest.\<close>

definition pop :: "box \<Rightarrow> rgb option \<times> box" where
  "pop xs = (if xs = [] then (None, []) else (last xs, butlast xs))"

text \<open>
  The choice of the axis in splitBox, with the midpoint of that axis:
  \<^verbatim>\<open>if (rRange >= gRange && rRange >= bRange) { axis = 'r'; mids.r = (minR + maxR) / 2; }
  else if (gRange >= bRange) { axis = 'g'; mids.g = (minG + maxG) / 2; }
  else { axis = 'b'; mids.b = (minB + maxB) / 2; }\<close>
\<close>

definition pickAxis :: "bounds \<Rightarrow> axis \<times> rat" where
  "pickAxis bd =
     (case bd of (minR, maxR, minG, maxG, minB, maxB) \<Rightarrow>
        let rRange = int maxR - int minR;
            gRange = int maxG - int minG;
            bRange = int maxB - int minB
        in if rRange \<ge> gRange \<and> rRange \<ge> bRange then (AxisR, of_nat (minR + maxR) / 2)
           else if gRange \<ge> bRange then (AxisG, of_nat (minG + maxG) / 2)
           else (AxisB, of_nat (minB + maxB) / 2))"

text \<open>
  The end of splitBox:
  \<^verbatim>\<open>if (box1.length === 0) box1.push(box2.pop());
  if (box2.length === 0) box2.push(box1.pop());\<close>
\<close>

definition fillEmpty :: "box \<times> box \<Rightarrow> box \<times> box" where
  "fillEmpty bs =
     (let (box1, box2) = bs;
          (box1, box2) =
            (if length box1 = 0 then (let (x, rest) = pop box2 in (box1 @ [x], rest))
             else (box1, box2));
          (box1, box2) =
            (if length box2 = 0 then (let (x, rest) = pop box1 in (rest, box2 @ [x]))
             else (box1, box2))
      in (box1, box2))"

definition splitBox :: "box \<Rightarrow> error + (box \<times> box)" where
  "splitBox pixels =
     (case scanBounds pixels initBounds of
        Inl e \<Rightarrow> Inl e
      | Inr bd \<Rightarrow>
          let (ax, mid) = pickAxis bd;
              box1 = filter (belowMid ax mid) pixels;
              box2 = filter (\<lambda>px. \<not> belowMid ax mid px) pixels
          in Inr (fillEmpty (box1, box2)))"

text \<open>
  \<^verbatim>\<open>Math.round(sum / n)\<close> for a non-negative sum and \<open>n > 0\<close>: the nearest integer,
  a half rounded up. Evaluated in exact arithmetic.
\<close>

definition roundDiv :: "nat \<Rightarrow> nat \<Rightarrow> nat" where
  "roundDiv s n = (2 * s + n) div (2 * n)"

fun sumChannels :: "box \<Rightarrow> nat \<times> nat \<times> nat \<Rightarrow> error + (nat \<times> nat \<times> nat)" where
  "sumChannels [] acc = Inr acc"
| "sumChannels (None # ps) acc = Inl TypeError"
| "sumChannels (Some p # ps) (sumR, sumG, sumB) =
     sumChannels ps (sumR + r p, sumG + g p, sumB + b p)"

definition getAverageColor :: "box \<Rightarrow> error + rgb" where
  "getAverageColor pixels =
     (if length pixels = 0 then Inr \<lparr>r = 0, g = 0, b = 0\<rparr>
      else case sumChannels pixels (0, 0, 0) of
             Inl e \<Rightarrow> Inl e
           | Inr (sumR, sumG, sumB) \<Rightarrow>
               Inr \<lparr>r = roundDiv sumR (length pixels),
                    g = roundDiv sumG (length pixels),
                    b = roundDiv sumB (length pixels)\<rparr>)"

text \<open>
  The search for the box to split:
  \<^verbatim>\<open>for (let i = 0; i < boxes.length; i++) { const range = getColorRange(boxes[i]);
  if (range > maxRange) { maxRange = range; maxBox = i; } }\<close>
  The first argument is the part of \<^verbatim>\<open>boxes\<close> from index \<open>i\<close> on.
\<close>

fun findMaxBox :: "box list \<Rightarrow> nat \<Rightarrow> nat \<Rightarrow> int \<Rightarrow> error + nat" where
  "findMaxBox [] i maxBox maxRange = Inr maxBox"
| "findMaxBox (bx # bxs) i maxBox maxRange =
     (case getColorRange bx of
        Inl e \<Rightarrow> Inl e
      | Inr rng \<Rightarrow>
          if rng > maxRange then findMaxBox bxs (i + 1) i rng
          else findMaxBox bxs (i + 1) maxBox maxRange)"

text \<open>\<^verbatim>\<open>boxes.splice(maxBox, 1, box1, box2)\<close>.\<close>

definition splice2 :: "box list \<Rightarrow> nat \<Rightarrow> box \<Rightarrow> box \<Rightarrow> box list" where
  "splice2 boxes i box1 box2 = take i boxes @ [box1, box2] @ drop (i + 1) boxes"

text \<open>
  The loop \<^verbatim>\<open>while (boxes.length < maxColors && iteration < 20)\<close>. With an empty
  \<^verbatim>\<open>boxes\<close> the source would call splitBox on \<^verbatim>\<open>undefined\<close>, which throws in its
  first loop.
\<close>

function medianCutLoop :: "int \<Rightarrow> box list \<Rightarrow> nat \<Rightarrow> error + box list" where
  "medianCutLoop maxColors boxes iteration =
     (if int (length boxes) < maxColors \<and> iteration < 20 then
        (case findMaxBox boxes 0 0 0 of
           Inl e \<Rightarrow> Inl e
         | Inr maxBox \<Rightarrow>
             if maxBox < length boxes then
               (case splitBox (boxes ! maxBox) of
                  Inl e \<Rightarrow> Inl e
                | Inr (box1, box2) \<Rightarrow>
                    medianCutLoop maxColors (splice2 boxes maxBox box1 box2) (iteration + 1))
             else Inl TypeError)
      else Inr boxes)"
  by pat_completeness auto
termination
  by (relation "measure (\<lambda>(maxColors, boxes, iteration). 20 - iteration)") auto

declare medianCutLoop.simps [simp del]

text \<open>
  \<^verbatim>\<open>boxes.map((box) => { const avgColor = getAverageColor(box);
  return { hex: rgbToHex(avgColor.r, avgColor.g, avgColor.b), label: '' }; })\<close>
\<close>

fun makePalette :: "box list \<Rightarrow> error + paletteEntry list" where
  "makePalette [] = Inr []"
| "makePalette (bx # bxs) =
     (case getAverageColor bx of
        Inl e \<Rightarrow> Inl e
      | Inr avgColor \<Rightarrow>
          (case makePalette bxs of
             Inl e \<Rightarrow> Inl e
           | Inr rest \<Rightarrow>
               Inr (\<lparr>hex = rgbToHex (r avgColor) (g avgColor) (b avgColor), label = []\<rparr> # rest)))"

text \<open>
  The search for the nearest palette colour of one pixel. \<^verbatim>\<open>minDistance\<close> starts at
  \<^verbatim>\<open>Infinity\<close>, written \<open>None\<close>.
\<close>

fun nearestLoop :: "rgb \<Rightarrow> paletteEntry list \<Rightarrow> string \<Rightarrow> real option \<Rightarrow> string" where
  "nearestLoop pixel [] nearestColor minDistance = nearestColor"
| "nearestLoop pixel (paletteColor # rest) nearestColor minDistance =
     (let dist = distanceBetweenColors pixel (hexToRgb (hex paletteColor)) in
      if (case minDistance of None \<Rightarrow> True | Some m \<Rightarrow> dist < m)
      then nearestLoop pixel rest (hex paletteColor) (Some dist)
      else nearestLoop pixel rest nearestColor minDistance)"

text \<open>\<^verbatim>\<open>let nearestColor = palette[0].hex\<close> throws on an empty palette.\<close>

definition nearestColorOf :: "paletteEntry list \<Rightarrow> rgb \<Rightarrow> error + string" where
  "nearestColorOf pal pixel =
     (case pal of
        [] \<Rightarrow> Inl TypeError
      | p0 # _ \<Rightarrow> Inr (nearestLoop pixel pal (hex p0) None))"

text \<open>
  A cell of a grid is \<^verbatim>\<open>null\<close> (\<open>None\<close>) or a value. The grid that
  quantizeColorsMedianCut receives holds pixel objects; the grid it returns holds hex
  strings, except that for an empty population it hands back the array it was given.
  Both kinds of value therefore appear in its result type.
\<close>

datatype cell = RgbCell rgb | HexCell string

type_synonym pixelGrid = "rgb option list list"
type_synonym cellGrid = "cell option list list"

text \<open>
  \<^verbatim>\<open>row[x] = v\<close> on a JavaScript array: an index past the end extends the array, and
  the skipped positions are holes, which read as \<^verbatim>\<open>undefined\<close> (here \<open>None\<close>, like
  \<^verbatim>\<open>null\<close>).
\<close>

definition setCell :: "cell option list \<Rightarrow> nat \<Rightarrow> cell \<Rightarrow> cell option list" where
  "setCell row x v =
     (if x < length row then row[x := Some v]
      else row @ replicate (x - length row) None @ [Some v])"

text \<open>
  The inner loop \<^verbatim>\<open>for (let x = 0; x < pixelData[y].length; x++)\<close> over one input
  row, from column \<open>x\<close> on, updating the output row \<open>out\<close>.
\<close>

fun mapRow :: "paletteEntry list \<Rightarrow> rgb option list \<Rightarrow> nat \<Rightarrow> cell option list
               \<Rightarrow> error + cell option list" where
  "mapRow pal [] x out = Inr out"
| "mapRow pal (None # ps) x out = mapRow pal ps (x + 1) out"
| "mapRow pal (Some pixel # ps) x out =
     (case nearestColorOf pal pixel of
        Inl e \<Rightarrow> Inl e
      | Inr nearestColor \<Rightarrow> mapRow pal ps (x + 1) (setCell out x (HexCell nearestColor)))"

text \<open>
  The outer loop. Every output row starts as \<^verbatim>\<open>Array(pixelData[0].length).fill(null)\<close>;
  \<open>w0\<close> is that length.
\<close>

fun mapRows :: "paletteEntry list \<Rightarrow> nat \<Rightarrow> pixelGrid \<Rightarrow> error + cellGrid" where
  "mapRows pal w0 [] = Inr []"
| "mapRows pal w0 (row # rows) =
     (case mapRow pal row 0 (replicate w0 None) of
        Inl e \<Rightarrow> Inl e
      | Inr out \<Rightarrow>
          (case mapRows pal w0 rows of
             Inl e \<Rightarrow> Inl e
           | Inr outs \<Rightarrow> Inr (out # outs)))"

text \<open>The first two loops: the non-null cells of the grid in row-major order.\<close>

definition flattenPixels :: "pixelGrid \<Rightarrow> rgb list" where
  "flattenPixels grid =
     concat (map (\<lambda>row. concat (map (\<lambda>c. case c of None \<Rightarrow> [] | Some p \<Rightarrow> [p]) row)) grid)"

record quantized =
  pixelData :: cellGrid
  palette :: "paletteEntry list"

text \<open>
  quantizeColorsMedianCut. When the population is not empty the grid has a first row, so
  \<^verbatim>\<open>pixelData[0].length\<close> is defined.
\<close>

definition quantizeColorsMedianCut :: "pixelGrid \<Rightarrow> int \<Rightarrow> error + quantized" where
  "quantizeColorsMedianCut grid maxColors =
     (let pixels = flattenPixels grid in
      if length pixels = 0 then
        Inr \<lparr>pixelData = map (map (map_option RgbCell)) grid,
             palette = [\<lparr>hex = ''#ffffff'', label = ''White''\<rparr>]\<rparr>
      else
        (case medianCutLoop maxColors [map Some pixels] 0 of
           Inl e \<Rightarrow> Inl e
         | Inr boxes \<Rightarrow>
             (case makePalette boxes of
                Inl e \<Rightarrow> Inl e
              | Inr pal \<Rightarrow>
                  (case mapRows pal (case grid of [] \<Rightarrow> 0 | row0 # _ \<Rightarrow> length row0) grid of
                     Inl e \<Rightarrow> Inl e
                   | Inr out \<Rightarrow> Inr \<lparr>pixelData = out, palette = pal\<rparr>))))"

section \<open>Resizing and the synchronous pipeline\<close>

text \<open>
  The uploaded image, as \<^verbatim>\<open>getImageData(0, 0, img.width, img.height)\<close> reads it
  from the canvas: \<^verbatim>\<open>data\<close> holds the bytes R, G, B, A of every pixel in row-major
  order. The browser returns \<open>4 * width * height\<close> bytes (\<open>wellFormed\<close> below).
\<close>

record image =
  width :: nat
  height :: nat
  data :: "nat list"

definition wellFormed :: "image \<Rightarrow> bool" where
  "wellFormed img =
     (0 < width img \<and> 0 < height img \<and> length (data img) = 4 * width img * height img)"

text \<open>
  JavaScript numbers are IEEE 754 doubles: \<^verbatim>\<open>/\<close> and \<^verbatim>\<open>*\<close> return the double nearest
  to the exact quotient or product, ties going to the even significand. \<open>toDouble q\<close> is
  that double for an exact value \<open>q\<close>: with \<open>2 ^ e \<le> q < 2 ^ (e + 1)\<close> the doubles around
  \<open>q\<close> are the multiples of \<open>2 ^ (e - 52)\<close>. The values rounded here are quotients and
  products of image sizes and loop counters: they are never negative, and zero is a
  double. The exponent range of doubles (underflow below \<open>2 ^ -1022\<close>, overflow from
  \<open>2 ^ 1024\<close>) is not modelled: no quotient or product of two sizes gets there.
\<close>

definition pow2 :: "int \<Rightarrow> real" where
  "pow2 e = (if 0 \<le> e then 2 ^ nat e else 1 / 2 ^ nat (- e))"

function binExponent :: "real \<Rightarrow> int" where
  "binExponent q =
     (if q \<le> 0 then 0
      else if 2 \<le> q then binExponent (q / 2) + 1
      else if q < 1 then binExponent (q * 2) - 1
      else 0)"
  by pat_completeness auto
termination
proof (relation "measure (\<lambda>q. if 1 \<le> q then nat \<lfloor>q\<rfloor> else nat \<lceil>1 / q\<rceil>)")
  show "wf (measure (\<lambda>q::real. if 1 \<le> q then nat \<lfloor>q\<rfloor> else nat \<lceil>1 / q\<rceil>))" by simp
next
  fix q :: real
  assume "\<not> q \<le> 0" and q: "2 \<le> q"
  have "\<lfloor>q / 2\<rfloor> \<le> \<lfloor>q - 1\<rfloor>" by (rule floor_mono) (use q in simp)
  then have "\<lfloor>q / 2\<rfloor> < \<lfloor>q\<rfloor>" by simp
  moreover have "0 < \<lfloor>q\<rfloor>" using q by simp
  ultimately have "nat \<lfloor>q / 2\<rfloor> < nat \<lfloor>q\<rfloor>" by simp
  moreover from q have "1 \<le> q / 2" "1 \<le> q" by simp_all
  ultimately show "(q / 2, q) \<in> measure (\<lambda>q. if 1 \<le> q then nat \<lfloor>q\<rfloor> else nat \<lceil>1 / q\<rceil>)"
    by simp
next
  fix q :: real
  assume pos: "\<not> q \<le> 0" and "\<not> 2 \<le> q" and q: "q < 1"
  from pos q have inv: "1 < 1 / q" by simp
  show "(q * 2, q) \<in> measure (\<lambda>q. if 1 \<le> q then nat \<lfloor>q\<rfloor> else nat \<lceil>1 / q\<rceil>)"
  proof (cases "1 \<le> q * 2")
    case True
    with q have "\<lfloor>q * 2\<rfloor> = 1" by (simp add: floor_eq_iff)
    moreover from inv have "2 \<le> \<lceil>1 / q\<rceil>" by (simp add: le_ceiling_iff)
    ultimately show ?thesis using True q by simp
  next
    case False
    with pos have "2 < 1 / q" by (simp add: field_simps)
    then have "1 / (q * 2) \<le> 1 / q - 1" by (simp add: field_simps)
    then have "\<lceil>1 / (q * 2)\<rceil> \<le> \<lceil>1 / q - 1\<rceil>" by (rule ceiling_mono)
    moreover from pos have "0 < \<lceil>1 / q\<rceil>" by (simp add: less_ceiling_iff)
    ultimately have "nat \<lceil>1 / (q * 2)\<rceil> < nat \<lceil>1 / q\<rceil>" by simp
    with False q show ?thesis by simp
  qed
qed

declare binExponent.simps [simp del]

definition roundHalfEven :: "real \<Rightarrow> int" where
  "roundHalfEven m =
     (let f = \<lfloor>m\<rfloor>; d = m - of_int f
      in if d < 1 / 2 then f
         else if 1 / 2 < d then f + 1
         else if even f then f else f + 1)"

definition toDouble :: "real \<Rightarrow> real" where
  "toDouble q =
     (if q \<le> 0 then 0
      else let ulp = pow2 (binExponent q - 52)
           in of_int (roundHalfEven (q / ulp)) * ulp)"

text \<open>
  \<^verbatim>\<open>const srcX = Math.floor(x * xRatio); const srcY = Math.floor(y * yRatio);
  const srcIndex = (srcY * img.width + srcX) * 4;\<close>
  with \<^verbatim>\<open>xRatio = img.width / targetWidth\<close> and \<^verbatim>\<open>yRatio = img.height / targetHeight\<close>.
  The quotient and the products are rounded to doubles; the index arithmetic is on
  integers below \<open>2 ^ 53\<close>, which is exact.
\<close>

definition srcIndex :: "image \<Rightarrow> int \<Rightarrow> int \<Rightarrow> nat \<Rightarrow> nat \<Rightarrow> nat" where
  "srcIndex img targetWidth targetHeight x y =
     (let xRatio = toDouble (real (width img) / real_of_int targetWidth);
          yRatio = toDouble (real (height img) / real_of_int targetHeight);
          srcX = nat \<lfloor>toDouble (real x * xRatio)\<rfloor>;
          srcY = nat \<lfloor>toDouble (real y * yRatio)\<rfloor>
      in (srcY * width img + srcX) * 4)"

text \<open>
  The body of the two loops of resizeImageNearestNeighbor for the output cell
  \<open>(x, y)\<close>. A read past the end of \<^verbatim>\<open>srcData\<close> gives \<^verbatim>\<open>undefined\<close> channels in
  JavaScript; for a well-formed image and target sizes in the range of the form no read
  is past the end (lemma \<open>srcIndex_in_bounds\<close>), and the model marks that case with
  \<open>ReadPastEnd\<close> instead of inventing channel values.
\<close>

definition samplePixel :: "image \<Rightarrow> int \<Rightarrow> int \<Rightarrow> nat \<Rightarrow> nat \<Rightarrow> error + rgb option" where
  "samplePixel img targetWidth targetHeight x y =
     (let i = srcIndex img targetWidth targetHeight x y in
      if i + 3 < length (data img) then
        (let cr = data img ! i;
             cg = data img ! (i + 1);
             cb = data img ! (i + 2);
             ca = data img ! (i + 3)
         in if ca < 128 then Inr None else Inr (Some \<lparr>r = cr, g = cg, b = cb\<rparr>))
      else Inl ReadPastEnd)"

text \<open>Running the iterations of a loop in order, stopping at the first exception.\<close>

fun collect :: "(error + 'a) list \<Rightarrow> error + 'a list" where
  "collect [] = Inr []"
| "collect (x # xs) =
     (case x of
        Inl e \<Rightarrow> Inl e
      | Inr v \<Rightarrow> (case collect xs of Inl e \<Rightarrow> Inl e | Inr vs \<Rightarrow> Inr (v # vs)))"

text \<open>
  resizeImageNearestNeighbor. \<^verbatim>\<open>getImageData\<close> throws for an empty source rectangle;
  \<^verbatim>\<open>Array(targetHeight)\<close> throws for a negative length, and so does
  \<^verbatim>\<open>Array(targetWidth)\<close>, which runs once per row.
\<close>

definition resizeImageNearestNeighbor :: "image \<Rightarrow> int \<Rightarrow> int \<Rightarrow> error + pixelGrid" where
  "resizeImageNearestNeighbor img targetWidth targetHeight =
     (if width img = 0 \<or> height img = 0 then Inl IndexSizeError
      else if targetHeight < 0 \<or> (0 < targetHeight \<and> targetWidth < 0) then Inl RangeError
      else collect (map (\<lambda>y. collect (map (\<lambda>x. samplePixel img targetWidth targetHeight x y)
                                            [0..<nat targetWidth]))
                        [0..<nat targetHeight]))"

text \<open>
  The part of the global \<^verbatim>\<open>state\<close> that handleProcessImage reads, and the values it
  takes from the form; \<open>None\<close> is the \<^verbatim>\<open>NaN\<close> of a \<^verbatim>\<open>parseInt\<close> that found no number.
  \<open>imageWorker\<close> tells whether \<^verbatim>\<open>state.imageWorker\<close> is set.
\<close>

record appState =
  uploadedImage :: "image option"
  statePalette :: "paletteEntry list"
  workerReady :: bool
  imageWorker :: bool

record importForm =
  importWidth :: "int option"
  importHeight :: "int option"
  importMaxColors :: "int option"
  detailBoostSlider :: "int option"
  resizeModeSelect :: string
  paletteLockToggle :: bool
  ditheringToggle :: bool
  autoTemplateToggle :: bool

text \<open>The \<^verbatim>\<open>data\<close> object of the message \<^verbatim>\<open>PROCESS_IMAGE\<close> posted to the worker.\<close>

record workerRequest =
  imageData :: image
  targetWidth :: int
  targetHeight :: int
  maxColors :: int
  detailBoost :: int
  resizeMode :: string
  usePaletteLock :: bool
  lockedPalette :: "string list option"
  enableDithering :: bool
  autoTemplateMode :: bool

text \<open>
  The object processImageFallback stores in \<^verbatim>\<open>state.processedImageData\<close>:
  \<^verbatim>\<open>{ pixelData, width, height, palette }\<close>.
\<close>

record processed = quantized +
  outWidth :: int
  outHeight :: int

text \<open>
  What a click on the button leads to: an error notification and a return before
  anything is processed; the message posted to the worker; the object the synchronous
  pipeline stores, with its success notification; or the error notification of the
  \<^verbatim>\<open>catch\<close> of that pipeline.
\<close>

datatype outcome =
    Rejected string
  | PostedToWorker workerRequest
  | Processed processed
  | ProcessingError

definition processImageFallback :: "appState \<Rightarrow> int \<Rightarrow> int \<Rightarrow> int \<Rightarrow> outcome" where
  "processImageFallback st tw th mc =
     (case uploadedImage st of
        None \<Rightarrow> ProcessingError
      | Some img \<Rightarrow>
          (case resizeImageNearestNeighbor img tw th of
             Inl e \<Rightarrow> ProcessingError
           | Inr resizedPixels \<Rightarrow>
               (case quantizeColorsMedianCut resizedPixels mc of
                  Inl e \<Rightarrow> ProcessingError
                | Inr quantizedData \<Rightarrow>
                    Processed \<lparr>pixelData = pixelData quantizedData,
                               palette = palette quantizedData,
                               outWidth = tw, outHeight = th\<rparr>)))"

text \<open>
  processImageWithWorker: the posted message. Drawing the image on a canvas and posting
  are taken to succeed; their \<^verbatim>\<open>catch\<close> would run processImageFallback.
\<close>

definition processImageWithWorker ::
  "appState \<Rightarrow> int \<Rightarrow> int \<Rightarrow> int \<Rightarrow> int \<Rightarrow> string \<Rightarrow> bool \<Rightarrow> string list option \<Rightarrow> bool \<Rightarrow> bool
     \<Rightarrow> outcome" where
  "processImageWithWorker st tw th mc boost mode lock locked dither auto =
     (case uploadedImage st of
        None \<Rightarrow> processImageFallback st tw th mc
      | Some img \<Rightarrow>
          PostedToWorker \<lparr>imageData = img, targetWidth = tw, targetHeight = th, maxColors = mc,
                          detailBoost = boost, resizeMode = mode, usePaletteLock = lock,
                          lockedPalette = locked, enableDithering = dither,
                          autoTemplateMode = auto\<rparr>)"

definition handleProcessImage :: "appState \<Rightarrow> importForm \<Rightarrow> outcome" where
  "handleProcessImage st form =
     (if uploadedImage st = None then Rejected ''Please upload an image first.''
      else case (importWidth form, importHeight form, importMaxColors form) of
        (Some tw, Some th, Some mc) \<Rightarrow>
          if tw < 4 \<or> th < 4 \<or> tw > 80 \<or> th > 80
          then Rejected ''Grid size must be between 4 and 80.''
          else if mc < 2 \<or> mc > 12
          then Rejected ''Max colors must be between 2 and 12.''
          else
            let boost = (case detailBoostSlider form of None \<Rightarrow> 0 | Some v \<Rightarrow> v);
                mode = (if resizeModeSelect form = [] then ''fill'' else resizeModeSelect form);
                lock = paletteLockToggle form;
                locked = (if lock \<and> length (statePalette st) > 0
                          then Some (map hex (statePalette st)) else None)
            in if workerReady st \<and> imageWorker st
               then processImageWithWorker st tw th mc boost mode lock locked
                      (ditheringToggle form) (autoTemplateToggle form)
               else processImageFallback st tw th mc
      | _ \<Rightarrow> Rejected ''Please enter valid numbers for all fields.'')"

section \<open>The quantizer of the worker\<close>

text \<open>
  The worker receives the posted request and, after resizing, calls
  quantizeColorsOptimized on the resized RGBA bytes. Its first loop copies R, G and B of
  every pixel, whatever its alpha, into \<^verbatim>\<open>colors\<close>; the length of \<^verbatim>\<open>pixels\<close> is a
  multiple of four.
\<close>

fun colorList :: "nat list \<Rightarrow> rgb list" where
  "colorList (x # y # z # a # rest) = \<lparr>r = x, g = y, b = z\<rparr> # colorList rest"
| "colorList rest = []"

text \<open>getColorRanges: the ranges of the three channels, \<open>(r, g, b)\<close>.\<close>

definition getColorRanges :: "rgb list \<Rightarrow> int \<times> int \<times> int" where
  "getColorRanges colors =
     (let minR = fold min (map r colors) 255; maxR = fold max (map r colors) 0;
          minG = fold min (map g colors) 255; maxG = fold max (map g colors) 0;
          minB = fold min (map b colors) 255; maxB = fold max (map b colors) 0
      in (int maxR - int minR, int maxG - int minG, int maxB - int minB))"

text \<open>
  The search of medianCutOptimized for the bucket to split, from index \<open>i\<close> on.
  \<open>maxBucketIdx\<close> is \<open>None\<close> for \<^verbatim>\<open>-1\<close>; the channels 0, 1, 2 are the three axes.
  A bucket with fewer than two colours is skipped.
\<close>

fun findBucket :: "rgb list list \<Rightarrow> nat \<Rightarrow> int \<Rightarrow> nat option \<Rightarrow> axis \<Rightarrow> nat option \<times> axis" where
  "findBucket [] i maxRange maxBucketIdx maxChannel = (maxBucketIdx, maxChannel)"
| "findBucket (bucket # rest) i maxRange maxBucketIdx maxChannel =
     (if length bucket < 2 then findBucket rest (i + 1) maxRange maxBucketIdx maxChannel
      else
        (case getColorRanges bucket of (rr, rg, rb) \<Rightarrow>
           let rng = max (max rr rg) rb in
           if rng > maxRange
           then findBucket rest (i + 1) rng (Some i)
                  (if rr \<ge> rg then (if rr \<ge> rb then AxisR else AxisB)
                   else (if rg \<ge> rb then AxisG else AxisB))
           else findBucket rest (i + 1) maxRange maxBucketIdx maxChannel))"

text \<open>
  splitBucket: the colours sorted on the channel (the sort is taken to be stable), cut at
  \<^verbatim>\<open>Math.floor(numColors / 2)\<close>.
\<close>

definition splitBucket :: "rgb list \<Rightarrow> axis \<Rightarrow> rgb list \<times> rgb list" where
  "splitBucket colors channel =
     (let sorted = sort_key (chan channel) colors;
          median = length colors div 2
      in (take median sorted, drop median sorted))"

text \<open>
  The loop \<^verbatim>\<open>while (buckets.length < maxColors)\<close> of medianCutOptimized, which stops
  early when no bucket can be split.
\<close>

function medianCutBuckets :: "nat \<Rightarrow> rgb list list \<Rightarrow> rgb list list" where
  "medianCutBuckets maxCols buckets =
     (if length buckets < maxCols then
        (case findBucket buckets 0 (- 1) None AxisR of
           (None, channel) \<Rightarrow> buckets
         | (Some idx, channel) \<Rightarrow>
             (case splitBucket (buckets ! idx) channel of
                (bucket1, bucket2) \<Rightarrow>
                  medianCutBuckets maxCols
                    (take idx buckets @ [bucket1, bucket2] @ drop (idx + 1) buckets)))
      else buckets)"
  by pat_completeness auto
termination
  by (relation "measure (\<lambda>(maxCols, buckets). maxCols - length buckets)") auto

declare medianCutBuckets.simps [simp del]

text \<open>
  averageColors followed by rgbToHex. For an empty bucket the three divisions by
  \<^verbatim>\<open>count = 0\<close> give \<^verbatim>\<open>NaN\<close>, which \<^verbatim>\<open>toString(16)\<close> prints as \<^verbatim>\<open>NaN\<close>.
\<close>

definition bucketHex :: "rgb list \<Rightarrow> string" where
  "bucketHex colors =
     (let count = length colors in
      if count = 0 then ''#NaNNaNNaN''
      else rgbToHex (roundDiv (sum_list (map r colors)) count)
                    (roundDiv (sum_list (map g colors)) count)
                    (roundDiv (sum_list (map b colors)) count))"

definition medianCutOptimized :: "rgb list \<Rightarrow> int \<Rightarrow> string list" where
  "medianCutOptimized colors maxCols =
     (let maxCols = (if maxCols < 2 then 2 else maxCols);
          maxCols = (if maxCols > 256 then 256 else maxCols)
      in map bucketHex (medianCutBuckets (nat maxCols) [colors]))"

text \<open>
  The \<^verbatim>\<open>palette\<close> of the object that quantizeColorsOptimized returns. Its
  \<^verbatim>\<open>pixelData\<close>, which mapPixelsToNearest or mapPixelsWithDithering compute from the
  pixels and this palette without changing the palette, is not modelled.
\<close>

definition quantizeColorsOptimized_palette ::
  "nat list \<Rightarrow> int \<Rightarrow> bool \<Rightarrow> string list option \<Rightarrow> string list" where
  "quantizeColorsOptimized_palette pixels maxCols lock locked =
     (let colors = colorList pixels in
      case locked of
        Some lp \<Rightarrow> if lock \<and> length lp > 0 then lp else medianCutOptimized colors maxCols
      | None \<Rightarrow> medianCutOptimized colors maxCols)"

text \<open>
  The palette of the result the worker posts back for a request, given the bytes
  \<open>resized\<close> that its resizing (and, on request, its colour shift) produced.
\<close>

definition processImage_palette :: "workerRequest \<Rightarrow> nat list \<Rightarrow> string list" where
  "processImage_palette req resized =
     quantizeColorsOptimized_palette resized (maxColors req) (usePaletteLock req)
       (lockedPalette req)"

section \<open>Notions used to state the properties\<close>

text \<open>
  The definitions of this section do not model code: they say, in the words of the
  specification, what the theorems below compare the code with, and they name the
  concrete inputs at which the theorems are instantiated.
\<close>

text \<open>The least and greatest value of a channel in a list of colours, and the range between them.\<close>

definition chanMin :: "axis \<Rightarrow> rgb list \<Rightarrow> nat" where
  "chanMin ax qs = Min (chan ax ` set qs)"

definition chanMax :: "axis \<Rightarrow> rgb list \<Rightarrow> nat" where
  "chanMax ax qs = Max (chan ax ` set qs)"

definition chanRange :: "axis \<Rightarrow> rgb list \<Rightarrow> nat" where
  "chanRange ax qs = chanMax ax qs - chanMin ax qs"

text \<open>A colour read from an image buffer: every channel is a byte.\<close>

definition isByteColor :: "rgb \<Rightarrow> bool" where
  "isByteColor p = (r p \<le> 255 \<and> g p \<le> 255 \<and> b p \<le> 255)"

text \<open>The channel of largest range, the first of R, G, B when ranges are equal.\<close>

definition widestAxis :: "rgb list \<Rightarrow> axis" where
  "widestAxis qs =
     (if chanRange AxisR qs \<ge> chanRange AxisG qs \<and> chanRange AxisR qs \<ge> chanRange AxisB qs then AxisR
      else if chanRange AxisG qs \<ge> chanRange AxisB qs then AxisG else AxisB)"

text \<open>The output cell of a pixel: the hex string of its nearest palette colour.\<close>

definition cellOf :: "paletteEntry list \<Rightarrow> rgb \<Rightarrow> cell" where
  "cellOf pal p = HexCell (case nearestColorOf pal p of Inr c \<Rightarrow> c | Inl e \<Rightarrow> [])"

text \<open>
  The range of a box when getColorRange returns one, and lists of non-empty lists of
  byte colours.
\<close>

definition rangeOf :: "box \<Rightarrow> int" where
  "rangeOf bx = (case getColorRange bx of Inr v \<Rightarrow> v | Inl e \<Rightarrow> 0)"

definition byteBoxes :: "rgb list list \<Rightarrow> bool" where
  "byteBoxes qss = (\<forall>qs\<in>set qss. qs \<noteq> [] \<and> (\<forall>p\<in>set qs. isByteColor p))"

text \<open>A rectangular grid: every row is as long as the first.\<close>

definition rectangular :: "'a list list \<Rightarrow> bool" where
  "rectangular grid = (\<forall>row\<in>set grid. length row = (case grid of [] \<Rightarrow> 0 | row0 # _ \<Rightarrow> length row0))"

text \<open>
  The requests for which the loop never goes on splitting boxes of a single colour: at
  most two colours asked, or no more than the input has.
\<close>

definition enoughColours :: "pixelGrid \<Rightarrow> int \<Rightarrow> bool" where
  "enoughColours grid m =
     (m \<le> 2 \<or> (list_all isByteColor (flattenPixels grid)
                 \<and> m \<le> int (card (set (flattenPixels grid)))))"

text \<open>A grid whose cells are all \<^verbatim>\<open>null\<close>.\<close>

definition allNull :: "pixelGrid \<Rightarrow> bool" where
  "allNull grid = list_all (list_all (\<lambda>c. c = None)) grid"

text \<open>
  The specification of hexToRgb: the value of a hexadecimal digit, upper or lower case;
  the byte two digits denote; and the colour of an optional \<^verbatim>\<open>#\<close> followed by exactly
  six digits, white for any other string.
\<close>

definition hexValue :: "char \<Rightarrow> nat option" where
  "hexValue c =
     map_of
       [(CHR ''0'', 0), (CHR ''1'', 1), (CHR ''2'', 2), (CHR ''3'', 3),
        (CHR ''4'', 4), (CHR ''5'', 5), (CHR ''6'', 6), (CHR ''7'', 7),
        (CHR ''8'', 8), (CHR ''9'', 9), (CHR ''a'', 10), (CHR ''b'', 11),
        (CHR ''c'', 12), (CHR ''d'', 13), (CHR ''e'', 14), (CHR ''f'', 15),
        (CHR ''A'', 10), (CHR ''B'', 11), (CHR ''C'', 12), (CHR ''D'', 13),
        (CHR ''E'', 14), (CHR ''F'', 15)] c"

definition hexByte :: "char \<Rightarrow> char \<Rightarrow> nat option" where
  "hexByte c d =
     (case (hexValue c, hexValue d) of (Some x, Some y) \<Rightarrow> Some (16 * x + y) | _ \<Rightarrow> None)"

definition hexToRgb_spec :: "string \<Rightarrow> rgb" where
  "hexToRgb_spec s =
     (case (case s of c # cs \<Rightarrow> if c = CHR ''#'' then cs else s | [] \<Rightarrow> s) of
        [c1, c2, c3, c4, c5, c6] \<Rightarrow>
          (case (hexByte c1 c2, hexByte c3 c4, hexByte c5 c6) of
             (Some x, Some y, Some z) \<Rightarrow> \<lparr>r = x, g = y, b = z\<rparr>
           | _ \<Rightarrow> \<lparr>r = 255, g = 255, b = 255\<rparr>)
      | _ \<Rightarrow> \<lparr>r = 255, g = 255, b = 255\<rparr>)"

text \<open>
  The source column and the source row that an output column and an output row sample,
  as the loops of resizeImageNearestNeighbor compute them, and the sizes covered by the
  lemmas on them: three times the product of a source size and its target size is below
  \<open>2 ^ 53\<close>, which holds for every canvas and the target sizes up to 80 of the form.
\<close>

definition srcColumn :: "image \<Rightarrow> int \<Rightarrow> nat \<Rightarrow> nat" where
  "srcColumn img tw x = nat \<lfloor>toDouble (real x * toDouble (real (width img) / real_of_int tw))\<rfloor>"

definition srcRow :: "image \<Rightarrow> int \<Rightarrow> nat \<Rightarrow> nat" where
  "srcRow img th y = nat \<lfloor>toDouble (real y * toDouble (real (height img) / real_of_int th))\<rfloor>"

definition inDoubleRange :: "image \<Rightarrow> int \<Rightarrow> int \<Rightarrow> bool" where
  "inDoubleRange img tw th =
     (3 * width img * nat tw < 2 ^ 53 \<and> 3 * height img * nat th < 2 ^ 53)"

text \<open>
  The alpha byte and the colour of the source pixel that the output cell \<open>(x, y)\<close>
  samples, the cell they give, and the output positions in row-major order.
\<close>

definition sampledAlpha :: "image \<Rightarrow> int \<Rightarrow> int \<Rightarrow> nat \<Rightarrow> nat \<Rightarrow> nat" where
  "sampledAlpha img tw th x y = data img ! (srcIndex img tw th x y + 3)"

definition sampledColor :: "image \<Rightarrow> int \<Rightarrow> int \<Rightarrow> nat \<Rightarrow> nat \<Rightarrow> rgb" where
  "sampledColor img tw th x y =
     (let i = srcIndex img tw th x y
      in \<lparr>r = data img ! i, g = data img ! (i + 1), b = data img ! (i + 2)\<rparr>)"

definition rasterOrder :: "nat \<Rightarrow> nat \<Rightarrow> (nat \<times> nat) list" where
  "rasterOrder w h = concat (map (\<lambda>y. map (\<lambda>x. (x, y)) [0..<w]) [0..<h])"

definition sampledCell :: "image \<Rightarrow> int \<Rightarrow> int \<Rightarrow> nat \<Rightarrow> nat \<Rightarrow> rgb option" where
  "sampledCell img tw th x y =
     (if sampledAlpha img tw th x y < 128 then None else Some (sampledColor img tw th x y))"

text \<open>
  A request outside the bounds of the form (sizes 4 to 80, 2 to 12 colours), and a form
  that holds three numbers inside them.
\<close>

definition outOfBounds :: "int \<Rightarrow> int \<Rightarrow> int \<Rightarrow> bool" where
  "outOfBounds tw th mc = (tw < 4 \<or> 80 < tw \<or> th < 4 \<or> 80 < th \<or> mc < 2 \<or> 12 < mc)"

definition validForm :: "importForm \<Rightarrow> int \<Rightarrow> int \<Rightarrow> int \<Rightarrow> bool" where
  "validForm form tw th mc =
     (importWidth form = Some tw \<and> importHeight form = Some th \<and> importMaxColors form = Some mc
      \<and> \<not> outOfBounds tw th mc)"

text \<open>
  Concrete inputs: the 2 by 2 bitmap red, red, blue, blue; a uniform grey; a 1 by 1
  opaque image with a state and a form for a 4 by 4 grid; a 2 by 1 image whose first
  pixel is transparent; a 4 by 4 image whose first pixel is transparent green and whose
  other pixels are opaque red, with a state that has the worker or not and the request
  posted for it; and a state and a form that ask for palette lock without a worker.
\<close>

definition redBlueImage :: image where
  "redBlueImage = \<lparr>width = 2, height = 2,
      data = [255, 0, 0, 255,  255, 0, 0, 255,  0, 0, 255, 255,  0, 0, 255, 255]\<rparr>"

definition grey :: rgb where
  "grey = \<lparr>r = 10, g = 10, b = 10\<rparr>"

definition solidImage :: image where
  "solidImage = \<lparr>width = 1, height = 1, data = [10, 20, 30, 255]\<rparr>"

definition solidState :: appState where
  "solidState = \<lparr>uploadedImage = Some solidImage, statePalette = [],
      workerReady = False, imageWorker = False\<rparr>"

definition solidForm :: "int \<Rightarrow> importForm" where
  "solidForm mc = \<lparr>importWidth = Some 4, importHeight = Some 4, importMaxColors = Some mc,
      detailBoostSlider = Some 0, resizeModeSelect = ''fill'', paletteLockToggle = False,
      ditheringToggle = False, autoTemplateToggle = False\<rparr>"

definition halfClearImage :: image where
  "halfClearImage = \<lparr>width = 2, height = 1, data = [9, 9, 9, 0,  1, 2, 3, 255]\<rparr>"

definition cutoutImage :: image where
  "cutoutImage = \<lparr>width = 4, height = 4,
      data = [0, 255, 0, 0,    255, 0, 0, 255,  255, 0, 0, 255,  255, 0, 0, 255,
              255, 0, 0, 255,  255, 0, 0, 255,  255, 0, 0, 255,  255, 0, 0, 255,
              255, 0, 0, 255,  255, 0, 0, 255,  255, 0, 0, 255,  255, 0, 0, 255,
              255, 0, 0, 255,  255, 0, 0, 255,  255, 0, 0, 255,  255, 0, 0, 255]\<rparr>"

definition cutoutState :: "bool \<Rightarrow> appState" where
  "cutoutState worker = \<lparr>uploadedImage = Some cutoutImage, statePalette = [],
      workerReady = worker, imageWorker = worker\<rparr>"

definition cutoutRequest :: workerRequest where
  "cutoutRequest = \<lparr>imageData = cutoutImage, targetWidth = 4, targetHeight = 4, maxColors = 2,
      detailBoost = 0, resizeMode = ''fill'', usePaletteLock = False, lockedPalette = None,
      enableDithering = False, autoTemplateMode = False\<rparr>"

definition lockedState :: appState where
  "lockedState = \<lparr>uploadedImage = Some redBlueImage,
      statePalette = [\<lparr>hex = ''#ff0000'', label = ''Red''\<rparr>, \<lparr>hex = ''#0000ff'', label = ''Blue''\<rparr>],
      workerReady = False, imageWorker = False\<rparr>"

definition lockedForm :: importForm where
  "lockedForm = \<lparr>importWidth = Some 4, importHeight = Some 4, importMaxColors = Some 2,
      detailBoostSlider = Some 0, resizeModeSelect = ''fill'', paletteLockToggle = True,
      ditheringToggle = False, autoTemplateToggle = False\<rparr>"

section \<open>The boxes of the median cut\<close>

lemma scanBounds_Inr_defined: "scanBounds ps acc = Inr bd \<Longrightarrow> None \<notin> set ps"
  by (induction ps acc rule: scanBounds.induct) auto

lemma scanBounds_defined:
  "scanBounds (map Some qs) (lo1, hi1, lo2, hi2, lo3, hi3) =
     Inr (fold min (map r qs) lo1, fold max (map r qs) hi1,
          fold min (map g qs) lo2, fold max (map g qs) hi2,
          fold min (map b qs) lo3, fold max (map b qs) hi3)"
  by (induction qs arbitrary: lo1 hi1 lo2 hi2 lo3 hi3) (simp_all add: min.commute max.commute)

lemma sumChannels_defined:
  "sumChannels (map Some qs) (s1, s2, s3) =
     Inr (s1 + sum_list (map r qs), s2 + sum_list (map g qs), s3 + sum_list (map b qs))"
  by (induction qs arbitrary: s1 s2 s3) (simp_all add: add.assoc)

lemma getColorRange_defined: "\<exists>v. getColorRange (map Some qs) = Inr v"
  by (simp add: getColorRange_def initBounds_def scanBounds_defined)

lemma getAverageColor_defined: "\<exists>v. getAverageColor (map Some qs) = Inr v"
  by (simp add: getAverageColor_def sumChannels_defined)

lemma makePalette_length: "makePalette bs = Inr pal \<Longrightarrow> length pal = length bs"
  by (induction bs arbitrary: pal) (auto split: sum.splits)

lemma findMaxBox_bound:
  "findMaxBox bs i m rg = Inr k \<Longrightarrow> k = m \<or> (i \<le> k \<and> k < i + length bs)"
  by (induction bs i m rg rule: findMaxBox.induct) (auto split: sum.splits if_splits)

lemma splice2_length: "i < length bs \<Longrightarrow> length (splice2 bs i x y) = length bs + 1"
  by (simp add: splice2_def)

lemma medianCutLoop_length:
  "medianCutLoop m bs it = Inr out \<Longrightarrow> 1 \<le> length bs \<Longrightarrow>
     int (length out) = max (int (length bs)) (min m (int (length bs) + 20 - int it))"
proof (induction m bs it rule: medianCutLoop.induct)
  case (1 m bs it)
  show ?case
  proof (cases "int (length bs) < m \<and> it < 20")
    case False
    with "1.prems" show ?thesis
      by (auto simp: medianCutLoop.simps[of m bs it])
  next
    case True
    from "1.prems"(1) True obtain k b1 b2 where
      k: "findMaxBox bs 0 0 0 = Inr k" "k < length bs"
      and sp: "splitBox (bs ! k) = Inr (b1, b2)"
      and rec: "medianCutLoop m (splice2 bs k b1 b2) (it + 1) = Inr out"
      by (auto simp: medianCutLoop.simps[of m bs it] split: sum.splits if_splits)
    have "int (length out) = max (int (length (splice2 bs k b1 b2)))
            (min m (int (length (splice2 bs k b1 b2)) + 20 - int (it + 1)))"
      using "1.IH"[OF True k(1) k(2) sp refl rec] k(2)
      by (simp add: splice2_length)
    with True k(2) show ?thesis
      by (simp add: splice2_length)
  qed
qed

text \<open>
  For colours whose channels are bytes the scan returns the true minimum and maximum of
  every channel, and splitBox cuts the list at the midpoint of the widest channel.
\<close>

lemma fold_min_255: "xs \<noteq> [] \<Longrightarrow> \<forall>x\<in>set xs. x \<le> (255::nat) \<Longrightarrow> fold min xs 255 = Min (set xs)"
proof -
  assume a: "xs \<noteq> []" "\<forall>x\<in>set xs. x \<le> (255::nat)"
  have "fold min xs 255 = Min (set (255 # xs))" by (simp only: Min.set_eq_fold)
  also have "\<dots> = min 255 (Min (set xs))" using a by simp
  also have "\<dots> = Min (set xs)"
  proof -
    have "Min (set xs) \<le> 255" using a by (simp add: Min_le_iff)
    then show ?thesis by simp
  qed
  finally show ?thesis .
qed

lemma fold_max_0: "xs \<noteq> [] \<Longrightarrow> fold max xs (0::nat) = Max (set xs)"
proof -
  assume a: "xs \<noteq> []"
  have "fold max xs 0 = Max (set (0 # xs))" by (simp only: Max.set_eq_fold)
  also have "\<dots> = max 0 (Max (set xs))" using a by simp
  finally show ?thesis by simp
qed

lemma scanBounds_bytes:
  assumes "qs \<noteq> []" "\<forall>p\<in>set qs. isByteColor p"
  shows "scanBounds (map Some qs) initBounds =
     Inr (chanMin AxisR qs, chanMax AxisR qs, chanMin AxisG qs, chanMax AxisG qs,
          chanMin AxisB qs, chanMax AxisB qs)"
proof -
  have "fold min (map r qs) 255 = Min (r ` set qs)"
       "fold min (map g qs) 255 = Min (g ` set qs)"
       "fold min (map b qs) 255 = Min (b ` set qs)"
    using assms fold_min_255[of "map r qs"] fold_min_255[of "map g qs"] fold_min_255[of "map b qs"]
    by (simp_all add: isByteColor_def)
  moreover have "fold max (map r qs) 0 = Max (r ` set qs)"
       "fold max (map g qs) 0 = Max (g ` set qs)"
       "fold max (map b qs) 0 = Max (b ` set qs)"
    using assms fold_max_0[of "map r qs"] fold_max_0[of "map g qs"] fold_max_0[of "map b qs"]
    by simp_all
  moreover have "chan AxisR = r" "chan AxisG = g" "chan AxisB = b" by (auto simp: fun_eq_iff)
  ultimately show ?thesis
    by (simp add: initBounds_def scanBounds_defined chanMin_def chanMax_def)
qed

lemma chanMin_le_Max: "qs \<noteq> [] \<Longrightarrow> chanMin ax qs \<le> chanMax ax qs"
  by (simp add: chanMin_def chanMax_def)

lemma pickAxis_bytes:
  assumes "qs \<noteq> []"
  shows "pickAxis (chanMin AxisR qs, chanMax AxisR qs, chanMin AxisG qs, chanMax AxisG qs,
          chanMin AxisB qs, chanMax AxisB qs) =
         (widestAxis qs, of_nat (chanMin (widestAxis qs) qs + chanMax (widestAxis qs) qs) / 2)"
proof -
  have le: "\<And>ax. chanMin ax qs \<le> chanMax ax qs" using assms(1) by (rule chanMin_le_Max)
  have rg: "\<And>ax. int (chanMax ax qs) - int (chanMin ax qs) = int (chanRange ax qs)"
    using le by (simp add: chanRange_def)
  show ?thesis
    by (simp add: pickAxis_def rg widestAxis_def del: of_nat_add)
qed

lemma below_half: "((of_nat x :: rat) < of_nat (lo + hi) / 2) = (2 * x < lo + hi)"
proof -
  have "((of_nat x :: rat) < of_nat (lo + hi) / 2) = ((of_nat (2 * x) :: rat) < of_nat (lo + hi))"
    by (simp add: field_simps)
  also have "\<dots> = (2 * x < lo + hi)" by (simp only: of_nat_less_iff)
  finally show ?thesis .
qed

lemma belowMid_Some:
  "belowMid ax (of_nat (lo + hi) / 2) (Some p) = (2 * chan ax p < lo + hi)"
  by (simp only: belowMid_def option.case below_half)

lemma filter_belowMid:
  "filter (belowMid ax (of_nat (lo + hi) / 2)) (map Some qs) = map Some (filter (\<lambda>p. 2 * chan ax p < lo + hi) qs)"
  by (induction qs) (simp_all add: belowMid_Some del: of_nat_add)

lemma filter_not_belowMid:
  "filter (\<lambda>px. \<not> belowMid ax (of_nat (lo + hi) / 2) px) (map Some qs) = map Some (filter (\<lambda>p. \<not> 2 * chan ax p < lo + hi) qs)"
  by (induction qs) (simp_all add: belowMid_Some del: of_nat_add)

lemma splitBox_widest:
  assumes "qs \<noteq> []" "\<forall>p\<in>set qs. isByteColor p"
  shows "splitBox (map Some qs) =
    Inr (fillEmpty (map Some (filter (\<lambda>p. 2 * chan (widestAxis qs) p < chanMin (widestAxis qs) qs + chanMax (widestAxis qs) qs) qs),
                    map Some (filter (\<lambda>p. \<not> 2 * chan (widestAxis qs) p < chanMin (widestAxis qs) qs + chanMax (widestAxis qs) qs) qs)))"
  unfolding splitBox_def scanBounds_bytes[OF assms] sum.case pickAxis_bytes[OF assms(1)] Let_def prod.case
    filter_belowMid filter_not_belowMid ..

text \<open>What the two final tests of splitBox do.\<close>

lemma fillEmpty_nonempty: "b1 \<noteq> [] \<Longrightarrow> b2 \<noteq> [] \<Longrightarrow> fillEmpty (b1, b2) = (b1, b2)"
  by (simp add: fillEmpty_def)

lemma fillEmpty_left_empty:
  "2 \<le> length b2 \<Longrightarrow> fillEmpty ([], b2) = ([last b2], butlast b2)"
  by (cases b2 rule: rev_cases) (auto simp: fillEmpty_def pop_def)

lemma fillEmpty_left_snoc:
  "fillEmpty ([], ys @ [y]) = (if ys = [] then ([], [y]) else ([y], ys))"
  by (simp add: fillEmpty_def pop_def)

lemma fillEmpty_right_empty: "fillEmpty (ys @ [y], []) = (ys, [y])"
  by (simp add: fillEmpty_def pop_def)

lemma fillEmpty_defined:
  assumes "None \<notin> set b1" "None \<notin> set b2" "b1 \<noteq> [] \<or> b2 \<noteq> []"
  shows "None \<notin> set (fst (fillEmpty (b1, b2))) \<and> None \<notin> set (snd (fillEmpty (b1, b2)))"
proof (cases "b1 = []")
  case True
  with assms obtain ys y where b2: "b2 = ys @ [y]"
    by (cases b2 rule: rev_cases) auto
  with True assms(2) show ?thesis
    by (simp add: fillEmpty_left_snoc)
next
  case False
  then obtain ys y where b1: "b1 = ys @ [y]" by (cases b1 rule: rev_cases) auto
  show ?thesis
  proof (cases "b2 = []")
    case True
    with b1 assms(1) show ?thesis by (simp add: fillEmpty_right_empty)
  next
    case b2: False
    with False assms show ?thesis by (simp add: fillEmpty_nonempty)
  qed
qed

lemma filter_partition_nonempty:
  "xs \<noteq> [] \<Longrightarrow> filter P xs \<noteq> [] \<or> filter (\<lambda>x. \<not> P x) xs \<noteq> []"
  by (cases xs) auto

lemma splitBox_defined:
  assumes "qs \<noteq> []"
  shows "\<exists>b1 b2. splitBox (map Some qs) = Inr (b1, b2) \<and> None \<notin> set b1 \<and> None \<notin> set b2"
proof -
  obtain bd where bd: "scanBounds (map Some qs) initBounds = Inr bd"
    by (simp add: initBounds_def scanBounds_defined)
  obtain ax mid where am: "pickAxis bd = (ax, mid)" by (cases "pickAxis bd")
  let ?b1 = "filter (belowMid ax mid) (map Some qs)"
  let ?b2 = "filter (\<lambda>px. \<not> belowMid ax mid px) (map Some qs)"
  have sp: "splitBox (map Some qs) = Inr (fillEmpty (?b1, ?b2))"
    by (simp add: splitBox_def bd am)
  from assms have "map Some qs \<noteq> []" by simp
  then have ne: "?b1 \<noteq> [] \<or> ?b2 \<noteq> []" by (rule filter_partition_nonempty)
  have "None \<notin> set ?b1" "None \<notin> set ?b2" by auto
  from fillEmpty_defined[OF this ne] sp show ?thesis
    by (cases "fillEmpty (?b1, ?b2)") auto
qed

lemma chanMax_attained: "qs \<noteq> [] \<Longrightarrow> \<exists>p\<in>set qs. chan ax p = chanMax ax qs"
proof -
  assume "qs \<noteq> []"
  then have "Max (chan ax ` set qs) \<in> chan ax ` set qs" by (intro Max_in) auto
  then show ?thesis by (auto simp: chanMax_def)
qed

lemma chanMin_attained: "qs \<noteq> [] \<Longrightarrow> \<exists>p\<in>set qs. chan ax p = chanMin ax qs"
proof -
  assume "qs \<noteq> []"
  then have "Min (chan ax ` set qs) \<in> chan ax ` set qs" by (intro Min_in) auto
  then show ?thesis by (auto simp: chanMin_def)
qed

lemma chanMin_lower: "p \<in> set qs \<Longrightarrow> chanMin ax qs \<le> chan ax p"
  by (simp add: chanMin_def)

lemma widestAxis_widest: "chanRange ax qs \<le> chanRange (widestAxis qs) qs"
  by (cases ax) (auto simp: widestAxis_def)

text \<open>
  Claim C3, as amended. For a box of \<open>n \<ge> 2\<close> colours with byte channels, splitBox
  returns two lists of defined colours. With \<open>ax\<close> the channel of largest range (the
  first of R, G, B on a tie) and \<open>lo\<close>, \<open>hi\<close> the least and greatest value of that
  channel: when \<open>lo < hi\<close> the first list holds the colours strictly below the value
  midpoint \<open>(lo + hi) / 2\<close> and the second the others, both in their original order;
  when all colours agree on every channel the first list is the last colour alone and
  the second the rest. No sorting takes place and the cut is not at the count median.
  Both lists are non-empty and their sizes add up to \<open>n\<close>.
\<close>

theorem splitBox_value_midpoint:
  assumes "2 \<le> length qs" and "\<forall>p\<in>set qs. isByteColor p"
  shows "\<exists>box1 box2. splitBox (map Some qs) = Inr (map Some box1, map Some box2)
     \<and> (let ax = widestAxis qs; lo = chanMin ax qs; hi = chanMax ax qs in
          (\<forall>ax'. chanRange ax' qs \<le> chanRange ax qs) \<and>
          (lo < hi \<longrightarrow> box1 = filter (\<lambda>p. 2 * chan ax p < lo + hi) qs
                      \<and> box2 = filter (\<lambda>p. \<not> 2 * chan ax p < lo + hi) qs) \<and>
          (lo = hi \<longrightarrow> box1 = [last qs] \<and> box2 = butlast qs))
     \<and> box1 \<noteq> [] \<and> box2 \<noteq> [] \<and> length box1 + length box2 = length qs"
proof -
  from assms(1) have ne: "qs \<noteq> []" by auto
  define ax where "ax = widestAxis qs"
  define lo where "lo = chanMin ax qs"
  define hi where "hi = chanMax ax qs"
  define c1 where "c1 = filter (\<lambda>p. 2 * chan ax p < lo + hi) qs"
  define c2 where "c2 = filter (\<lambda>p. \<not> 2 * chan ax p < lo + hi) qs"
  have sp: "splitBox (map Some qs) = Inr (fillEmpty (map Some c1, map Some c2))"
    using splitBox_widest[OF ne assms(2)] by (simp add: ax_def lo_def hi_def c1_def c2_def)
  have lohi: "lo \<le> hi" using chanMin_le_Max[OF ne] by (simp add: lo_def hi_def)
  have len: "length c1 + length c2 = length qs"
    using sum_length_filter_compl[of "\<lambda>p. 2 * chan ax p < lo + hi" qs] by (simp add: c1_def c2_def)
  obtain pmax where pmax: "pmax \<in> set qs" "chan ax pmax = hi"
    using chanMax_attained[OF ne, of ax] by (auto simp: hi_def)
  with lohi have "pmax \<in> set c2" by (simp add: c2_def)
  then have c2ne: "c2 \<noteq> []" by auto
  show ?thesis
  proof (cases "lo < hi")
    case True
    obtain pmin where pmin: "pmin \<in> set qs" "chan ax pmin = lo"
      using chanMin_attained[OF ne, of ax] by (auto simp: lo_def)
    with True have "pmin \<in> set c1" by (simp add: c1_def)
    then have c1ne: "c1 \<noteq> []" by auto
    have "splitBox (map Some qs) = Inr (map Some c1, map Some c2)"
      using sp c1ne c2ne by (simp add: fillEmpty_nonempty)
    with True c1ne c2ne len show ?thesis
      unfolding Let_def ax_def[symmetric] lo_def[symmetric] hi_def[symmetric]
      by (intro exI[of _ c1] exI[of _ c2]) (simp add: c1_def c2_def ax_def widestAxis_widest)
  next
    case False
    with lohi have eq: "lo = hi" by simp
    have "\<forall>p\<in>set qs. \<not> 2 * chan ax p < lo + hi"
    proof
      fix p assume "p \<in> set qs"
      then have "lo \<le> chan ax p" by (simp add: lo_def chanMin_lower)
      with eq show "\<not> 2 * chan ax p < lo + hi" by simp
    qed
    then have c1: "c1 = []" and c2: "c2 = qs" by (auto simp: c1_def c2_def)
    have "splitBox (map Some qs) = Inr (map Some [last qs], map Some (butlast qs))"
      using sp c1 c2 assms(1) ne by (simp add: fillEmpty_left_empty last_map map_butlast)
    moreover have "butlast qs \<noteq> []" using assms(1) by (cases qs rule: rev_cases) auto
    ultimately show ?thesis
      unfolding Let_def ax_def[symmetric] lo_def[symmetric] hi_def[symmetric]
      using eq ne by (intro exI[of _ "[last qs]"] exI[of _ "butlast qs"]) (simp add: ax_def widestAxis_widest)
  qed
qed

section \<open>The palette and the output grid of quantizeColorsMedianCut\<close>

lemma nearestLoop_mem: "nearestLoop p pal init md \<in> insert init (hex ` set pal)"
  by (induction pal arbitrary: init md) (auto simp: Let_def)

lemma nearestColorOf_mem: "nearestColorOf pal p = Inr c \<Longrightarrow> c \<in> hex ` set pal"
  using nearestLoop_mem[of p pal "hex (hd pal)" None]
  by (cases pal) (auto simp: nearestColorOf_def)

lemma nearestColorOf_total: "pal \<noteq> [] \<Longrightarrow> \<exists>c. nearestColorOf pal p = Inr c"
  by (cases pal) (auto simp: nearestColorOf_def)

lemma nearestColorOf_empty: "nearestColorOf [] p = Inl TypeError"
  by (simp add: nearestColorOf_def)

lemma setCell_mid: "setCell (pre @ None # post) (length pre) v = pre @ Some v # post"
  by (simp add: setCell_def)

text \<open>
  On a row as long as the output row was initialised, the inner loop maps the row cell
  by cell.
\<close>

lemma mapRow_rect:
  "pal \<noteq> [] \<Longrightarrow>
   mapRow pal ps (length pre) (pre @ replicate (length ps) None)
     = Inr (pre @ map (map_option (cellOf pal)) ps)"
proof (induction ps arbitrary: pre)
  case Nil
  then show ?case by simp
next
  case (Cons c ps)
  show ?case
  proof (cases c)
    case None
    have "mapRow pal (c # ps) (length pre) (pre @ replicate (length (c # ps)) None)
          = mapRow pal ps (length (pre @ [None])) ((pre @ [None]) @ replicate (length ps) None)"
      using None by simp
    also have "\<dots> = Inr ((pre @ [None]) @ map (map_option (cellOf pal)) ps)"
      by (rule Cons.IH[OF Cons.prems])
    finally show ?thesis using None by simp
  next
    case (Some p)
    from nearestColorOf_total[OF Cons.prems, of p] obtain col where col: "nearestColorOf pal p = Inr col" ..
    then have ce: "cellOf pal p = HexCell col" by (simp add: cellOf_def)
    have "mapRow pal (c # ps) (length pre) (pre @ replicate (length (c # ps)) None)
          = mapRow pal ps (length (pre @ [Some (HexCell col)]))
              ((pre @ [Some (HexCell col)]) @ replicate (length ps) None)"
      using Some col by (simp add: setCell_mid)
    also have "\<dots> = Inr ((pre @ [Some (HexCell col)]) @ map (map_option (cellOf pal)) ps)"
      by (rule Cons.IH[OF Cons.prems])
    finally show ?thesis using Some ce by simp
  qed
qed

lemma mapRows_rect:
  "pal \<noteq> [] \<Longrightarrow> \<forall>row\<in>set grid. length row = w \<Longrightarrow>
   mapRows pal w grid = Inr (map (map (map_option (cellOf pal))) grid)"
proof (induction grid)
  case Nil
  then show ?case by simp
next
  case (Cons row grid)
  have "mapRow pal row (length ([]::cell option list)) ([] @ replicate (length row) None)
        = Inr ([] @ map (map_option (cellOf pal)) row)"
    by (rule mapRow_rect[OF Cons.prems(1)])
  with Cons show ?case by simp
qed

lemma mapRow_total: "pal \<noteq> [] \<Longrightarrow> \<exists>out. mapRow pal ps x out0 = Inr out"
proof (induction ps arbitrary: x out0)
  case Nil
  then show ?case by simp
next
  case (Cons c ps)
  show ?case
  proof (cases c)
    case None
    with Cons show ?thesis by simp
  next
    case (Some p)
    from nearestColorOf_total[OF Cons.prems, of p] obtain col where "nearestColorOf pal p = Inr col" ..
    with Some Cons show ?thesis by simp
  qed
qed

lemma mapRows_total: "pal \<noteq> [] \<Longrightarrow> \<exists>out. mapRows pal w grid = Inr out"
proof (induction grid)
  case Nil
  then show ?case by simp
next
  case (Cons row grid)
  from mapRow_total[OF Cons.prems] obtain out where "mapRow pal row 0 (replicate w None) = Inr out" by blast
  moreover from Cons obtain outs where "mapRows pal w grid = Inr outs" by blast
  ultimately show ?case by simp
qed

lemma getAverageColor_total: "None \<notin> set bx \<Longrightarrow> \<exists>v. getAverageColor bx = Inr v"
proof -
  assume "None \<notin> set bx"
  then have "bx = map Some (map the bx)" by (induction bx) auto
  then show ?thesis using getAverageColor_defined[of "map the bx"] by simp
qed

lemma makePalette_total: "\<forall>bx\<in>set bs. None \<notin> set bx \<Longrightarrow> \<exists>pal. makePalette bs = Inr pal"
proof (induction bs)
  case Nil
  then show ?case by simp
next
  case (Cons bx bs)
  then obtain v where "getAverageColor bx = Inr v" using getAverageColor_total[of bx] by auto
  moreover from Cons obtain pal where "makePalette bs = Inr pal" by auto
  ultimately show ?case by simp
qed

text \<open>With \<open>maxColors \<le> 2\<close> the loop splits at most once, and no box holds \<^verbatim>\<open>undefined\<close>.\<close>

lemma medianCutLoop_small:
  assumes "qs \<noteq> []" "m \<le> 2"
  shows "\<exists>bs. medianCutLoop m [map Some qs] 0 = Inr bs \<and> (\<forall>bx\<in>set bs. None \<notin> set bx)"
proof (cases "m \<le> 1")
  case True
  then have "medianCutLoop m [map Some qs] 0 = Inr [map Some qs]"
    by (simp add: medianCutLoop.simps)
  then show ?thesis by auto
next
  case False
  with assms have m: "m = 2" by simp
  obtain v where v: "getColorRange (map Some qs) = Inr v" using getColorRange_defined by blast
  then have fm: "findMaxBox [map Some qs] 0 0 0 = Inr 0" by simp
  from splitBox_defined[OF assms(1)] obtain b1 b2 where
    sp: "splitBox (map Some qs) = Inr (b1, b2)" "None \<notin> set b1" "None \<notin> set b2" by blast
  have "medianCutLoop m [map Some qs] 0 = medianCutLoop 2 [b1, b2] 1"
    using m fm sp(1) by (subst medianCutLoop.simps) (simp add: splice2_def)
  also have "\<dots> = Inr [b1, b2]" by (simp add: medianCutLoop.simps)
  finally show ?thesis using sp by simp
qed

lemma quantize_nonempty_unfold:
  assumes "flattenPixels grid \<noteq> []"
  shows "quantizeColorsMedianCut grid m = Inr res \<longleftrightarrow>
     (\<exists>boxes pal out. medianCutLoop m [map Some (flattenPixels grid)] 0 = Inr boxes
        \<and> makePalette boxes = Inr pal
        \<and> mapRows pal (case grid of [] \<Rightarrow> 0 | row0 # _ \<Rightarrow> length row0) grid = Inr out
        \<and> res = \<lparr>pixelData = out, palette = pal\<rparr>)"
  using assms by (auto simp: quantizeColorsMedianCut_def Let_def split: sum.splits)

text \<open>
  While there are fewer boxes than distinct colours, some box holds two different
  colours; the search picks a box of positive range, and splitBox cuts such a box into
  two non-empty parts without touching its final tests. So the loop never produces an
  empty box as long as \<open>maxColors\<close> does not exceed the number of distinct colours.
\<close>

lemma getColorRange_bytes:
  assumes "qs \<noteq> []" "\<forall>p\<in>set qs. isByteColor p"
  shows "getColorRange (map Some qs) =
           Inr (int (max (max (chanRange AxisR qs) (chanRange AxisG qs)) (chanRange AxisB qs)))"
proof -
  have le: "\<And>ax. chanMin ax qs \<le> chanMax ax qs" using assms(1) by (rule chanMin_le_Max)
  have rg: "\<And>ax. int (chanMax ax qs) - int (chanMin ax qs) = int (chanRange ax qs)"
    using le by (simp add: chanRange_def)
  show ?thesis
    using assms(1) by (simp add: getColorRange_def scanBounds_bytes[OF assms] rg)
qed

lemma rangeOf_bytes:
  assumes "qs \<noteq> []" "\<forall>p\<in>set qs. isByteColor p"
  shows "rangeOf (map Some qs) = int (chanRange (widestAxis qs) qs)"
  unfolding rangeOf_def getColorRange_bytes[OF assms]
  by (auto simp: widestAxis_def max_def)

lemma chanMax_upper: "p \<in> set qs \<Longrightarrow> chan ax p \<le> chanMax ax qs"
  by (simp add: chanMax_def)

lemma differ_on_channel: "(p::rgb) \<noteq> q \<Longrightarrow> \<exists>ax. chan ax p \<noteq> chan ax q"
proof (rule ccontr)
  assume pq: "p \<noteq> q" and "\<not> (\<exists>ax. chan ax p \<noteq> chan ax q)"
  then have "chan AxisR p = chan AxisR q" "chan AxisG p = chan AxisG q" "chan AxisB p = chan AxisB q"
    by blast+
  then have "p = q" by simp
  with pq show False by simp
qed

lemma two_colours_range:
  assumes "p \<in> set qs" "q \<in> set qs" "p \<noteq> q"
  shows "0 < chanRange (widestAxis qs) qs"
proof -
  from differ_on_channel[OF assms(3)] obtain ax where ax: "chan ax p \<noteq> chan ax q" ..
  have "chanMin ax qs \<le> chan ax p" "chanMin ax qs \<le> chan ax q"
    "chan ax p \<le> chanMax ax qs" "chan ax q \<le> chanMax ax qs"
    using assms(1,2) by (simp_all add: chanMin_lower chanMax_upper)
  with ax have "0 < chanRange ax qs" by (simp add: chanRange_def)
  with widestAxis_widest[of ax qs] show ?thesis by simp
qed

lemma pigeonhole_colours:
  assumes "length qss < card (\<Union>(set ` set qss))"
  shows "\<exists>qs\<in>set qss. \<exists>p\<in>set qs. \<exists>q\<in>set qs. p \<noteq> q"
proof (rule ccontr)
  assume "\<not> ?thesis"
  then have one: "\<forall>qs\<in>set qss. card (set qs) \<le> 1"
    by (auto simp: card_le_Suc0_iff_eq)
  have "card (\<Union>(set ` set qss)) \<le> (\<Sum>qs\<in>set qss. card (set qs))"
    by (rule card_UN_le) simp
  also have "\<dots> \<le> (\<Sum>qs\<in>set qss. 1)" using one by (intro sum_mono) auto
  also have "\<dots> = card (set qss)" by simp
  also have "\<dots> \<le> length qss" by (rule card_length)
  finally show False using assms by simp
qed

lemma findMaxBox_picks:
  assumes "\<forall>bx\<in>set bs. \<exists>v. getColorRange bx = Inr v"
  shows "\<exists>k. findMaxBox bs i mb mr = Inr k
     \<and> ((\<exists>bx\<in>set bs. mr < rangeOf bx) \<longrightarrow> i \<le> k \<and> k < i + length bs \<and> mr < rangeOf (bs ! (k - i)))
     \<and> ((\<forall>bx\<in>set bs. rangeOf bx \<le> mr) \<longrightarrow> k = mb)"
  using assms
proof (induction bs arbitrary: i mb mr)
  case Nil
  show ?case by simp
next
  case (Cons bx bs)
  from Cons.prems obtain v where v: "getColorRange bx = Inr v" by auto
  then have rv: "rangeOf bx = v" by (simp add: rangeOf_def)
  from Cons.prems have rest: "\<forall>bx\<in>set bs. \<exists>v. getColorRange bx = Inr v" by simp
  show ?case
  proof (cases "mr < v")
    case True
    from Cons.IH[OF rest, of "i + 1" i v] obtain k where
      k: "findMaxBox bs (i + 1) i v = Inr k"
      and big: "(\<exists>bx\<in>set bs. v < rangeOf bx) \<longrightarrow>
                  i + 1 \<le> k \<and> k < i + 1 + length bs \<and> v < rangeOf (bs ! (k - (i + 1)))"
      and small: "(\<forall>bx\<in>set bs. rangeOf bx \<le> v) \<longrightarrow> k = i"
      by blast
    have fm: "findMaxBox (bx # bs) i mb mr = Inr k" using v True k by simp
    have "i \<le> k \<and> k < i + length (bx # bs) \<and> mr < rangeOf ((bx # bs) ! (k - i))"
    proof (cases "\<exists>bx\<in>set bs. v < rangeOf bx")
      case True
      with big have b: "i + 1 \<le> k" "k < i + 1 + length bs" "v < rangeOf (bs ! (k - (i + 1)))"
        by simp_all
      from b(1) have "k - i = Suc (k - (i + 1))" by arith
      then have "(bx # bs) ! (k - i) = bs ! (k - (i + 1))" by simp
      with b \<open>mr < v\<close> show ?thesis by simp
    next
      case False
      then have "\<forall>bx\<in>set bs. rangeOf bx \<le> v" by auto
      with small have "k = i" by simp
      with rv \<open>mr < v\<close> show ?thesis by simp
    qed
    moreover have "\<not> (\<forall>b'\<in>set (bx # bs). rangeOf b' \<le> mr)" using rv True by auto
    ultimately show ?thesis using fm by blast
  next
    case False
    from Cons.IH[OF rest, of "i + 1" mb mr] obtain k where
      k: "findMaxBox bs (i + 1) mb mr = Inr k"
      and big: "(\<exists>bx\<in>set bs. mr < rangeOf bx) \<longrightarrow>
                  i + 1 \<le> k \<and> k < i + 1 + length bs \<and> mr < rangeOf (bs ! (k - (i + 1)))"
      and small: "(\<forall>bx\<in>set bs. rangeOf bx \<le> mr) \<longrightarrow> k = mb"
      by blast
    have fm: "findMaxBox (bx # bs) i mb mr = Inr k" using v False k by simp
    have "(\<exists>b'\<in>set (bx # bs). mr < rangeOf b') \<longrightarrow>
            i \<le> k \<and> k < i + length (bx # bs) \<and> mr < rangeOf ((bx # bs) ! (k - i))"
    proof
      assume "\<exists>b'\<in>set (bx # bs). mr < rangeOf b'"
      with rv False have "\<exists>b'\<in>set bs. mr < rangeOf b'" by auto
      with big have b: "i + 1 \<le> k" "k < i + 1 + length bs" "mr < rangeOf (bs ! (k - (i + 1)))"
        by simp_all
      from b(1) have "k - i = Suc (k - (i + 1))" by arith
      then have "(bx # bs) ! (k - i) = bs ! (k - (i + 1))" by simp
      with b show "i \<le> k \<and> k < i + length (bx # bs) \<and> mr < rangeOf ((bx # bs) ! (k - i))"
        by simp
    qed
    moreover have "(\<forall>b'\<in>set (bx # bs). rangeOf b' \<le> mr) \<longrightarrow> k = mb"
      using small by simp
    ultimately show ?thesis using fm by blast
  qed
qed

lemma splitBox_proper:
  assumes "qs \<noteq> []" "\<forall>p\<in>set qs. isByteColor p" "0 < chanRange (widestAxis qs) qs"
  shows "\<exists>c1 c2. splitBox (map Some qs) = Inr (map Some c1, map Some c2)
           \<and> c1 \<noteq> [] \<and> c2 \<noteq> [] \<and> set c1 \<union> set c2 = set qs"
proof -
  define ax where "ax = widestAxis qs"
  define lo where "lo = chanMin ax qs"
  define hi where "hi = chanMax ax qs"
  define c1 where "c1 = filter (\<lambda>p. 2 * chan ax p < lo + hi) qs"
  define c2 where "c2 = filter (\<lambda>p. \<not> 2 * chan ax p < lo + hi) qs"
  have sp: "splitBox (map Some qs) = Inr (fillEmpty (map Some c1, map Some c2))"
    using splitBox_widest[OF assms(1,2)] by (simp add: ax_def lo_def hi_def c1_def c2_def)
  from assms(3) have lohi: "lo < hi" by (simp add: chanRange_def ax_def lo_def hi_def)
  obtain pmax where "pmax \<in> set qs" "chan ax pmax = hi"
    using chanMax_attained[OF assms(1), of ax] by (auto simp: hi_def)
  with lohi have "pmax \<in> set c2" by (simp add: c2_def)
  then have c2ne: "c2 \<noteq> []" by auto
  obtain pmin where "pmin \<in> set qs" "chan ax pmin = lo"
    using chanMin_attained[OF assms(1), of ax] by (auto simp: lo_def)
  with lohi have "pmin \<in> set c1" by (simp add: c1_def)
  then have c1ne: "c1 \<noteq> []" by auto
  have "splitBox (map Some qs) = Inr (map Some c1, map Some c2)"
    using sp c1ne c2ne by (simp add: fillEmpty_nonempty)
  moreover have "set c1 \<union> set c2 = set qs" by (auto simp: c1_def c2_def)
  ultimately show ?thesis using c1ne c2ne by blast
qed

lemma splice_union:
  assumes "k < length qss" "set c1 \<union> set c2 = set (qss ! k)"
  shows "\<Union>(set ` set (take k qss @ [c1, c2] @ drop (k + 1) qss)) = \<Union>(set ` set qss)"
proof -
  have "qss = take k qss @ (qss ! k) # drop (k + 1) qss"
    using assms(1) by (simp add: id_take_nth_drop)
  then have "\<Union>(set ` set qss) =
      \<Union>(set ` set (take k qss)) \<union> set (qss ! k) \<union> \<Union>(set ` set (drop (k + 1) qss))"
    by (metis (no_types, lifting) Sup_insert Un_assoc image_Un image_insert list.simps(15) set_append Union_Un_distrib)
  with assms(2) show ?thesis by auto
qed

lemma splice_boxes:
  assumes "k < length qss"
  shows "splice2 (map (map Some) qss) k (map Some c1) (map Some c2)
           = map (map Some) (take k qss @ [c1, c2] @ drop (k + 1) qss)"
  by (simp add: splice2_def take_map drop_map)

lemma splice_byteBoxes:
  assumes "byteBoxes qss" "k < length qss" "c1 \<noteq> []" "c2 \<noteq> []" "set c1 \<union> set c2 = set (qss ! k)"
  shows "byteBoxes (take k qss @ [c1, c2] @ drop (k + 1) qss)"
proof -
  have k: "qss ! k \<in> set qss" using assms(2) by simp
  with assms(1) have "\<forall>p\<in>set (qss ! k). isByteColor p" by (simp add: byteBoxes_def)
  with assms(5) have b: "\<forall>p\<in>set c1. isByteColor p" "\<forall>p\<in>set c2. isByteColor p" by auto
  have "\<And>qs. qs \<in> set (take k qss) \<or> qs \<in> set (drop (k + 1) qss) \<Longrightarrow> qs \<in> set qss"
    by (auto dest: in_set_takeD in_set_dropD)
  with assms(1,3,4) b show ?thesis by (auto simp: byteBoxes_def)
qed

lemma medianCutLoop_proper:
  "boxes = map (map Some) qss \<Longrightarrow> byteBoxes qss \<Longrightarrow> m \<le> int (card (\<Union>(set ` set qss))) \<Longrightarrow>
     \<exists>qss'. medianCutLoop m boxes it = Inr (map (map Some) qss') \<and> byteBoxes qss'"
proof (induction m boxes it arbitrary: qss rule: medianCutLoop.induct)
  case (1 m boxes it)
  show ?case
  proof (cases "int (length boxes) < m \<and> it < 20")
    case False
    then have "medianCutLoop m boxes it = Inr boxes" by (auto simp: medianCutLoop.simps[of m boxes it])
    with "1.prems" show ?thesis by blast
  next
    case True
    with "1.prems" have "length qss < card (\<Union>(set ` set qss))" by simp
    from pigeonhole_colours[OF this] obtain qs p q where
      qs: "qs \<in> set qss" "p \<in> set qs" "q \<in> set qs" "p \<noteq> q" by blast
    from qs(1) "1.prems"(2) have qsb: "qs \<noteq> []" "\<forall>p\<in>set qs. isByteColor p"
      by (simp_all add: byteBoxes_def)
    have "0 < rangeOf (map Some qs)"
      using two_colours_range[OF qs(2,3,4)] by (simp add: rangeOf_bytes[OF qsb])
    moreover have "map Some qs \<in> set boxes" using qs(1) "1.prems"(1) by simp
    ultimately have ex: "\<exists>bx\<in>set boxes. 0 < rangeOf bx" by blast
    have "\<forall>bx\<in>set boxes. \<exists>v. getColorRange bx = Inr v"
      using "1.prems"(1,2) by (auto simp: byteBoxes_def getColorRange_bytes)
    from findMaxBox_picks[OF this, of 0 0 0] ex obtain k where
      k: "findMaxBox boxes 0 0 0 = Inr k" "k < length boxes" "0 < rangeOf (boxes ! k)"
      by auto
    from k(2) "1.prems"(1) have kq: "k < length qss" by simp
    then have bk: "boxes ! k = map Some (qss ! k)" using "1.prems"(1) by simp
    from kq have "qss ! k \<in> set qss" by simp
    with "1.prems"(2) have qk: "qss ! k \<noteq> []" "\<forall>p\<in>set (qss ! k). isByteColor p"
      unfolding byteBoxes_def by blast+
    from k(3) have "0 < chanRange (widestAxis (qss ! k)) (qss ! k)"
      by (simp add: bk rangeOf_bytes[OF qk])
    from splitBox_proper[OF qk this] obtain c1 c2 where
      sp: "splitBox (boxes ! k) = Inr (map Some c1, map Some c2)"
      and c: "c1 \<noteq> []" "c2 \<noteq> []" "set c1 \<union> set c2 = set (qss ! k)"
      by (auto simp: bk)
    let ?qss = "take k qss @ [c1, c2] @ drop (k + 1) qss"
    have nb: "splice2 boxes k (map Some c1) (map Some c2) = map (map Some) ?qss"
      unfolding "1.prems"(1) by (rule splice_boxes[OF kq])
    have inv: "byteBoxes ?qss" by (rule splice_byteBoxes[OF "1.prems"(2) kq c])
    have un: "m \<le> int (card (\<Union>(set ` set ?qss)))"
      using "1.prems"(3) by (simp only: splice_union[OF kq c(3)])
    from "1.IH"[OF True k(1) k(2) sp refl nb inv un] obtain qss' where
      "medianCutLoop m (splice2 boxes k (map Some c1) (map Some c2)) (it + 1) = Inr (map (map Some) qss')"
      "byteBoxes qss'" by blast
    moreover have "medianCutLoop m boxes it =
        medianCutLoop m (splice2 boxes k (map Some c1) (map Some c2)) (it + 1)"
      using True k(1,2) sp by (subst medianCutLoop.simps) simp
    ultimately show ?thesis by auto
  qed
qed

lemma quantize_returns_enough_colours:
  assumes "\<forall>p\<in>set (flattenPixels grid). isByteColor p"
    and "1 \<le> m" and "m \<le> int (card (set (flattenPixels grid)))"
  shows "\<exists>res. quantizeColorsMedianCut grid m = Inr res"
proof -
  from assms(2,3) have ne: "flattenPixels grid \<noteq> []" by auto
  have bb: "byteBoxes [flattenPixels grid]" using ne assms(1) by (simp add: byteBoxes_def)
  have "m \<le> int (card (\<Union>(set ` set [flattenPixels grid])))" using assms(3) by simp
  from medianCutLoop_proper[OF _ bb this, of "[map Some (flattenPixels grid)]" 0] obtain qss' where
    bs: "medianCutLoop m [map Some (flattenPixels grid)] 0 = Inr (map (map Some) qss')"
    by auto
  have "\<forall>bx\<in>set (map (map Some) qss'). None \<notin> set bx" by auto
  from makePalette_total[OF this] obtain pal where pal: "makePalette (map (map Some) qss') = Inr pal" ..
  from medianCutLoop_length[OF bs] have "length (map (map Some) qss') \<noteq> 0" by auto
  with makePalette_length[OF pal] have "pal \<noteq> []" by auto
  from mapRows_total[OF this] obtain out where
    "mapRows pal (case grid of [] \<Rightarrow> 0 | row0 # _ \<Rightarrow> length row0) grid = Inr out" ..
  with bs pal show ?thesis
    by (auto simp: quantize_nonempty_unfold[OF ne])
qed

lemma cellOf_palette: "pal \<noteq> [] \<Longrightarrow> \<exists>e\<in>set pal. cellOf pal p = HexCell (hex e)"
proof -
  assume "pal \<noteq> []"
  from nearestColorOf_total[OF this, of p] obtain col where col: "nearestColorOf pal p = Inr col" ..
  from nearestColorOf_mem[OF col] col show ?thesis by (auto simp: cellOf_def)
qed

lemma quantize_returns_small:
  assumes "m \<le> 2"
  shows "\<exists>res. quantizeColorsMedianCut grid m = Inr res"
proof (cases "flattenPixels grid = []")
  case True
  then show ?thesis by (simp add: quantizeColorsMedianCut_def)
next
  case False
  from medianCutLoop_small[OF False assms] obtain bs where
    bs: "medianCutLoop m [map Some (flattenPixels grid)] 0 = Inr bs" "\<forall>bx\<in>set bs. None \<notin> set bx"
    by blast
  from makePalette_total[OF bs(2)] obtain pal where pal: "makePalette bs = Inr pal" ..
  from medianCutLoop_length[OF bs(1)] have "length bs \<noteq> 0" by auto
  with makePalette_length[OF pal] have "pal \<noteq> []" by auto
  from mapRows_total[OF this] obtain out where
    "mapRows pal (case grid of [] \<Rightarrow> 0 | row0 # _ \<Rightarrow> length row0) grid = Inr out" ..
  with bs(1) pal show ?thesis
    by (auto simp: quantize_nonempty_unfold[OF False])
qed

lemma quantize_returns:
  assumes "enoughColours grid m"
  shows "\<exists>res. quantizeColorsMedianCut grid m = Inr res"
proof (cases "m \<le> 2")
  case True
  then show ?thesis by (rule quantize_returns_small)
next
  case False
  with assms have "\<forall>p\<in>set (flattenPixels grid). isByteColor p"
    and "m \<le> int (card (set (flattenPixels grid)))"
    by (simp_all add: enoughColours_def list_all_iff)
  moreover from False have "1 \<le> m" by simp
  ultimately show ?thesis by (intro quantize_returns_enough_colours)
qed

text \<open>
  Claim C1, as amended. For a grid with at least one non-null cell and
  \<open>maxColors \<ge> 1\<close>: quantizeColorsMedianCut returns when \<open>maxColors\<close> is at most 2
  or at most the number of distinct input colours (with byte channels). Whenever it
  returns, the length of its palette is at least 1 and at most \<open>maxColors\<close>; it is
  exactly \<open>min maxColors 21\<close>, since every iteration adds one box and there are at
  most 20. The length is therefore at most the number of distinct input colours when
  \<open>maxColors\<close> is, and not in general.
\<close>

theorem quantize_palette_length:
  assumes "flattenPixels grid \<noteq> []" and "1 \<le> m"
  shows "(enoughColours grid m \<longrightarrow> (\<exists>res. quantizeColorsMedianCut grid m = Inr res))
       \<and> (\<forall>res. quantizeColorsMedianCut grid m = Inr res \<longrightarrow>
            1 \<le> length (palette res) \<and> int (length (palette res)) \<le> m
            \<and> int (length (palette res)) = min m 21
            \<and> (m \<le> int (card (set (flattenPixels grid))) \<longrightarrow>
                  length (palette res) \<le> card (set (flattenPixels grid))))"
proof (intro conjI impI allI)
  assume "enoughColours grid m"
  then show "\<exists>res. quantizeColorsMedianCut grid m = Inr res" by (rule quantize_returns)
next
  fix res assume "quantizeColorsMedianCut grid m = Inr res"
  then obtain boxes where b: "medianCutLoop m [map Some (flattenPixels grid)] 0 = Inr boxes"
    and p: "makePalette boxes = Inr (palette res)"
    by (auto simp: quantize_nonempty_unfold[OF assms(1)])
  from medianCutLoop_length[OF b] makePalette_length[OF p] assms(2)
  have len: "int (length (palette res)) = min m 21" by simp
  with assms(2) show "1 \<le> length (palette res)" by simp
  from len show "int (length (palette res)) \<le> m" by simp
  from len show "int (length (palette res)) = min m 21" .
  assume "m \<le> int (card (set (flattenPixels grid)))"
  with len show "length (palette res) \<le> card (set (flattenPixels grid))" by simp
qed

lemma quantize_cells:
  assumes "rectangular grid" and "quantizeColorsMedianCut grid m = Inr res"
  shows "(flattenPixels grid = [] \<and> pixelData res = map (map (map_option RgbCell)) grid
            \<and> (\<forall>row\<in>set grid. \<forall>c\<in>set row. c = None))
       \<or> (palette res \<noteq> [] \<and> pixelData res = map (map (map_option (cellOf (palette res)))) grid)"
proof (cases "flattenPixels grid = []")
  case True
  have "\<forall>row\<in>set grid. \<forall>c\<in>set row. c = None"
  proof (intro ballI, rule ccontr)
    fix row c assume rc: "row \<in> set grid" "c \<in> set row" and "c \<noteq> None"
    then obtain p where "c = Some p" by auto
    with rc have "p \<in> set (flattenPixels grid)"
      unfolding flattenPixels_def by (auto intro!: bexI[of _ row] bexI[of _ "Some p"])
    with True show False by simp
  qed
  moreover from True assms(2) have "pixelData res = map (map (map_option RgbCell)) grid"
    by (auto simp: quantizeColorsMedianCut_def)
  ultimately show ?thesis using True by simp
next
  case False
  from assms(2) obtain boxes out where
    b: "medianCutLoop m [map Some (flattenPixels grid)] 0 = Inr boxes"
    and p: "makePalette boxes = Inr (palette res)"
    and o: "mapRows (palette res) (case grid of [] \<Rightarrow> 0 | row0 # _ \<Rightarrow> length row0) grid = Inr out"
    and r: "pixelData res = out"
    by (auto simp: quantize_nonempty_unfold[OF False])
  from medianCutLoop_length[OF b] have "length boxes \<noteq> 0" by auto
  with makePalette_length[OF p] have ne: "palette res \<noteq> []" by auto
  from assms(1) have "\<forall>row\<in>set grid. length row = (case grid of [] \<Rightarrow> 0 | row0 # _ \<Rightarrow> length row0)"
    by (simp add: rectangular_def)
  from mapRows_rect[OF ne this] o r ne show ?thesis by simp
qed

text \<open>
  Claim C9. For a rectangular input grid and any \<open>maxColors\<close>, a result of
  quantizeColorsMedianCut has a grid of the dimensions of the input, a cell of it is
  null exactly when the input cell is null, and every non-null cell holds the hex
  string of an entry of the returned palette. The function returns when \<open>maxColors\<close>
  is at most 2 or at most the number of distinct input colours.
\<close>

theorem quantize_grid_shape:
  assumes "rectangular grid"
  shows "(enoughColours grid m \<longrightarrow> (\<exists>res. quantizeColorsMedianCut grid m = Inr res))
       \<and> (\<forall>res. quantizeColorsMedianCut grid m = Inr res \<longrightarrow>
            length (pixelData res) = length grid
          \<and> (\<forall>y<length grid. length (pixelData res ! y) = length (grid ! y)
               \<and> (\<forall>x<length (grid ! y).
                     (pixelData res ! y ! x = None \<longleftrightarrow> grid ! y ! x = None)
                   \<and> (\<forall>c. pixelData res ! y ! x = Some c \<longrightarrow>
                          (\<exists>e\<in>set (palette res). c = HexCell (hex e))))))"
proof (intro conjI impI allI)
  assume "enoughColours grid m"
  then show "\<exists>res. quantizeColorsMedianCut grid m = Inr res" by (rule quantize_returns)
next
  fix res assume q: "quantizeColorsMedianCut grid m = Inr res"
  from quantize_cells[OF assms q]
  show "length (pixelData res) = length grid" by auto
next
  fix res y assume q: "quantizeColorsMedianCut grid m = Inr res" and y: "y < length grid"
  from quantize_cells[OF assms q] y
  show "length (pixelData res ! y) = length (grid ! y)" by auto
next
  fix res y x
  assume q: "quantizeColorsMedianCut grid m = Inr res" and y: "y < length grid"
    and x: "x < length (grid ! y)"
  from quantize_cells[OF assms q] y x
  show "(pixelData res ! y ! x = None) = (grid ! y ! x = None)" by auto
next
  fix res y x c
  assume q: "quantizeColorsMedianCut grid m = Inr res" and y: "y < length grid"
    and x: "x < length (grid ! y)" and c: "pixelData res ! y ! x = Some c"
  from quantize_cells[OF assms q]
  show "\<exists>e\<in>set (palette res). c = HexCell (hex e)"
  proof
    assume a: "flattenPixels grid = [] \<and> pixelData res = map (map (map_option RgbCell)) grid
            \<and> (\<forall>row\<in>set grid. \<forall>c\<in>set row. c = None)"
    from y x have "grid ! y ! x \<in> set (grid ! y)" "grid ! y \<in> set grid" by auto
    with a have "grid ! y ! x = None" by blast
    with a y x c show ?thesis by simp
  next
    assume a: "palette res \<noteq> [] \<and> pixelData res = map (map (map_option (cellOf (palette res)))) grid"
    with y x c obtain p where "grid ! y ! x = Some p" "c = cellOf (palette res) p" by auto
    with cellOf_palette[of "palette res" p] a show ?thesis by auto
  qed
qed

lemma flattenPixels_allNull: "allNull grid \<Longrightarrow> flattenPixels grid = []"
  by (induction grid) (auto simp: allNull_def flattenPixels_def list_all_iff)

text \<open>
  Claim C10. When every cell of the grid is null, quantizeColorsMedianCut returns, for
  every \<open>maxColors\<close>, the grid it was given (the same cells, all null) with the
  one-entry palette \<^verbatim>\<open>[{ hex: '#ffffff', label: 'White' }]\<close>.
\<close>

theorem quantize_empty_population:
  assumes "allNull grid"
  shows "quantizeColorsMedianCut grid m =
           Inr \<lparr>pixelData = map (map (map_option RgbCell)) grid,
                palette = [\<lparr>hex = ''#ffffff'', label = ''White''\<rparr>]\<rparr>"
  using flattenPixels_allNull[OF assms] by (simp add: quantizeColorsMedianCut_def)

lemmas quantizer_defs =
  quantizeColorsMedianCut_def flattenPixels_def medianCutLoop.simps getColorRange_def initBounds_def
  splitBox_def pickAxis_def fillEmpty_def belowMid_def pop_def splice2_def getAverageColor_def
  roundDiv_def rgbToHex_def channelHex_def toString16.simps hexDigit_def nearestColorOf_def
  distanceBetweenColors_def hexToRgb_def hexPattern_def isHexDigit_def digitVal_def
  parseInt16_def setCell_def Let_def

section \<open>hexToRgb\<close>

text \<open>The digit values of the model are those of the table.\<close>

lemma digitVal_in_table:
  "c \<in> set ''0123456789abcdefABCDEF'' \<Longrightarrow> digitVal c = hexValue c"
  by (auto simp: digitVal_def hexValue_def)

lemma code_in_table:
  assumes "(48 \<le> n \<and> n \<le> 57) \<or> (97 \<le> n \<and> n \<le> 102) \<or> (65 \<le> n \<and> n \<le> 70)"
  shows "char_of (n::nat) \<in> set ''0123456789abcdefABCDEF''"
proof -
  from assms have "n \<in> {48, 49, 50, 51, 52, 53, 54, 55, 56, 57, 97, 98, 99, 100, 101, 102,
      65, 66, 67, 68, 69, 70}" by (simp; arith)
  then show ?thesis by (elim insertE emptyE) (simp_all add: char_of_eq_iff)
qed

lemma digitVal_hexValue: "digitVal c = hexValue c"
proof (cases "c \<in> set ''0123456789abcdefABCDEF''")
  case True
  then show ?thesis by (rule digitVal_in_table)
next
  case False
  then have h: "hexValue c = None" by (simp add: hexValue_def)
  have "digitVal c = None"
  proof (rule ccontr)
    assume "digitVal c \<noteq> None"
    then have "(48 \<le> (of_char c :: nat) \<and> (of_char c :: nat) \<le> 57)
       \<or> (97 \<le> (of_char c :: nat) \<and> (of_char c :: nat) \<le> 102)
       \<or> (65 \<le> (of_char c :: nat) \<and> (of_char c :: nat) \<le> 70)"
      by (auto simp: digitVal_def Let_def split: if_splits)
    from code_in_table[OF this] False show False by simp
  qed
  with h show ?thesis by simp
qed

lemma length6: "length t = 6 \<Longrightarrow> \<exists>c1 c2 c3 c4 c5 c6. t = [c1, c2, c3, c4, c5, c6]"
  by (auto simp: length_Suc_conv eval_nat_numeral)

lemma parseInt16_pair:
  "parseInt16 [c, d] = 16 * (case digitVal c of Some v \<Rightarrow> v | None \<Rightarrow> 0)
                        + (case digitVal d of Some v \<Rightarrow> v | None \<Rightarrow> 0)"
  by (simp add: parseInt16_def)

lemma hexByte_digitVal:
  "digitVal c = Some x \<Longrightarrow> digitVal d = Some y \<Longrightarrow> hexByte c d = Some (parseInt16 [c, d])"
  by (simp add: hexByte_def parseInt16_pair digitVal_hexValue[symmetric])

lemma hexByte_None: "digitVal c = None \<or> digitVal d = None \<Longrightarrow> hexByte c d = None"
  by (auto simp: hexByte_def digitVal_hexValue[symmetric] split: option.splits)

text \<open>
  Claim C8. hexToRgb returns a colour for every string: for an optional \<^verbatim>\<open>#\<close>
  followed by exactly six hexadecimal digits, in either case, the three bytes that the
  digit pairs denote; for any other string, white (255, 255, 255).
\<close>

theorem hexToRgb_refines: "hexToRgb s = hexToRgb_spec s"
proof -
  define t where "t = (case s of c # cs \<Rightarrow> if c = CHR ''#'' then cs else s | [] \<Rightarrow> s)"
  have model: "hexToRgb s =
     (if length t = 6 \<and> list_all isHexDigit t
      then \<lparr>r = parseInt16 (take 2 t), g = parseInt16 (take 2 (drop 2 t)), b = parseInt16 (drop 4 t)\<rparr>
      else \<lparr>r = 255, g = 255, b = 255\<rparr>)"
    by (simp add: hexToRgb_def hexPattern_def t_def Let_def)
  show ?thesis
  proof (cases "length t = 6")
    case True
    then obtain c1 c2 c3 c4 c5 c6 where t: "t = [c1, c2, c3, c4, c5, c6]" using length6 by blast
    have spec: "hexToRgb_spec s =
        (case (hexByte c1 c2, hexByte c3 c4, hexByte c5 c6) of
             (Some x, Some y, Some z) \<Rightarrow> \<lparr>r = x, g = y, b = z\<rparr>
           | _ \<Rightarrow> \<lparr>r = 255, g = 255, b = 255\<rparr>)"
      unfolding hexToRgb_spec_def t_def[symmetric] by (simp add: t)
    show ?thesis
    proof (cases "list_all isHexDigit t")
      case True
      then obtain v1 v2 v3 v4 v5 v6 where
        "digitVal c1 = Some v1" "digitVal c2 = Some v2" "digitVal c3 = Some v3"
        "digitVal c4 = Some v4" "digitVal c5 = Some v5" "digitVal c6 = Some v6"
        by (auto simp: t isHexDigit_def)
      then have "hexByte c1 c2 = Some (parseInt16 [c1, c2])" "hexByte c3 c4 = Some (parseInt16 [c3, c4])"
        "hexByte c5 c6 = Some (parseInt16 [c5, c6])"
        by (simp_all add: hexByte_digitVal)
      with True show ?thesis by (simp add: model spec t)
    next
      case False
      then have "digitVal c1 = None \<or> digitVal c2 = None \<or> digitVal c3 = None
          \<or> digitVal c4 = None \<or> digitVal c5 = None \<or> digitVal c6 = None"
        by (auto simp: t isHexDigit_def)
      then have "hexByte c1 c2 = None \<or> hexByte c3 c4 = None \<or> hexByte c5 c6 = None"
        using hexByte_None[of c1 c2] hexByte_None[of c3 c4] hexByte_None[of c5 c6] by auto
      then have "hexToRgb_spec s = \<lparr>r = 255, g = 255, b = 255\<rparr>"
        by (auto simp: spec split: option.splits)
      with False show ?thesis by (simp add: model)
    qed
  next
    case False
    then have "\<And>c1 c2 c3 c4 c5 c6. t \<noteq> [c1, c2, c3, c4, c5, c6]" by auto
    then have "hexToRgb_spec s = \<lparr>r = 255, g = 255, b = 255\<rparr>"
      unfolding hexToRgb_spec_def t_def[symmetric] by (auto split: list.splits)
    with False show ?thesis by (simp add: model)
  qed
qed

section \<open>Rounding to doubles\<close>

text \<open>
  The exponent found by binExponent brackets its argument, so rounding to a double
  changes a positive value by at most the fraction \<open>2 ^ -53\<close> of it, and a natural
  number below \<open>2 ^ 53\<close> is a double. Hence the floor of the rounded product
  \<open>x * (w / t)\<close> is the integer quotient \<open>x * w div t\<close>, or one less than it when \<open>t\<close>
  divides \<open>x * w\<close>; it is below \<open>w\<close>; and it is \<open>x\<close> when \<open>t = w\<close>.
\<close>

lemma pow2_powi: "pow2 e = 2 powi e"
  by (simp add: pow2_def power_int_def field_simps)

lemma pow2_pos: "0 < pow2 e"
  by (simp add: pow2_def)

lemma pow2_add: "pow2 (i + j) = pow2 i * pow2 j"
  by (simp add: pow2_powi power_int_add)

lemma pow2_Suc: "pow2 (e + 1) = 2 * pow2 e"
  by (simp add: pow2_powi power_int_add)

lemma pow2_pred: "pow2 (e - 1) = pow2 e / 2"
  using pow2_Suc[of "e - 1"] by simp

lemma pow2_nat: "pow2 (int n) = 2 ^ n"
  by (simp add: pow2_def)

lemma pow2_mono: "i \<le> j \<Longrightarrow> pow2 i \<le> pow2 j"
  by (simp add: pow2_powi power_int_increasing)

lemma binExponent_bounds:
  "0 < q \<Longrightarrow> pow2 (binExponent q) \<le> q \<and> q < pow2 (binExponent q + 1)"
proof (induction q rule: binExponent.induct)
  case (1 q)
  show ?case
  proof (cases "2 \<le> q")
    case True
    with 1 have ih: "pow2 (binExponent (q / 2)) \<le> q / 2 \<and> q / 2 < pow2 (binExponent (q / 2) + 1)"
      by simp
    from True 1 have eq: "binExponent q = binExponent (q / 2) + 1"
      by (simp add: binExponent.simps[of q])
    from ih show ?thesis by (simp only: eq pow2_Suc) linarith
  next
    case False
    show ?thesis
    proof (cases "q < 1")
      case True
      with False 1 have ih: "pow2 (binExponent (q * 2)) \<le> q * 2 \<and> q * 2 < pow2 (binExponent (q * 2) + 1)"
        by simp
      from True False 1 have eq: "binExponent q = binExponent (q * 2) - 1"
        by (simp add: binExponent.simps[of q])
      have cancel: "binExponent (q * 2) - 1 + 1 = binExponent (q * 2)" by simp
      from ih show ?thesis by (simp only: eq cancel pow2_Suc pow2_pred) linarith
    next
      case ge: False
      with False 1 have "binExponent q = 0" by (simp add: binExponent.simps[of q])
      with ge False show ?thesis by (simp add: pow2_def)
    qed
  qed
qed

lemma roundHalfEven_err: "\<bar>real_of_int (roundHalfEven m) - m\<bar> \<le> 1 / 2"
  unfolding roundHalfEven_def Let_def by (auto simp: abs_le_iff)

lemma roundHalfEven_int: "roundHalfEven (of_int k) = k"
  by (simp add: roundHalfEven_def)

lemma toDouble_err:
  assumes "0 < q"
  shows "\<bar>toDouble q - q\<bar> \<le> q / 2 ^ 53"
proof -
  define s where "s = pow2 (binExponent q - 52)"
  define m where "m = q / s"
  have s: "0 < s" by (simp add: s_def pow2_pos)
  have td: "toDouble q = real_of_int (roundHalfEven m) * s"
    using assms by (simp add: toDouble_def Let_def s_def m_def)
  have q: "q = m * s" using s by (simp add: m_def)
  have "pow2 (binExponent q) = pow2 (binExponent q - 52 + 52)" by simp
  also have "\<dots> = s * 2 ^ 52" unfolding pow2_add s_def by (simp add: pow2_def)
  finally have "s * 2 ^ 52 \<le> q" using binExponent_bounds[OF assms] by simp
  then have half: "s / 2 \<le> q / 2 ^ 53" by simp
  have "toDouble q - q = (real_of_int (roundHalfEven m) - m) * s"
    unfolding td using q by (simp add: left_diff_distrib)
  then have "\<bar>toDouble q - q\<bar> = \<bar>real_of_int (roundHalfEven m) - m\<bar> * s"
    using s by (simp add: abs_mult)
  also have "\<dots> \<le> (1 / 2) * s"
    by (rule mult_right_mono[OF roundHalfEven_err]) (use s in simp)
  finally show ?thesis using half by simp
qed

lemma pow2_less_cancel: "pow2 i < pow2 j \<Longrightarrow> i < j"
  using pow2_mono[of j i] by (cases "i < j") auto

lemma toDouble_nat:
  assumes "n < 2 ^ 53"
  shows "toDouble (real n) = real n"
proof (cases "n = 0")
  case True
  then show ?thesis by (simp add: toDouble_def)
next
  case False
  then have pos: "0 < real n" by simp
  define e where "e = binExponent (real n)"
  from binExponent_bounds[OF pos] have lo: "pow2 e \<le> real n" and hi: "real n < pow2 (e + 1)"
    by (simp_all add: e_def)
  from assms have "real n < pow2 53" by (simp add: pow2_def)
  with lo have "pow2 e < pow2 53" by simp
  then have e53: "e < 53" by (rule pow2_less_cancel)
  define j where "j = nat (52 - e)"
  from e53 have j: "e - 52 = - int j" by (simp add: j_def)
  have ulp: "pow2 (e - 52) = 1 / 2 ^ j"
  proof -
    have "pow2 (e - 52) * pow2 (int j) = pow2 0" unfolding pow2_add[symmetric] j by simp
    then show ?thesis by (simp add: pow2_nat pow2_def field_simps)
  qed
  have "real n / pow2 (e - 52) = real_of_int (int (n * 2 ^ j))" by (simp add: ulp)
  then have "roundHalfEven (real n / pow2 (e - 52)) = int (n * 2 ^ j)"
    by (simp only: roundHalfEven_int)
  then show ?thesis using pos by (simp add: toDouble_def Let_def e_def[symmetric] ulp)
qed

lemma toDouble_nonneg: "0 \<le> toDouble q"
proof (cases "0 < q")
  case True
  define d where "d = q / 2 ^ 53"
  from toDouble_err[OF True] have "\<bar>toDouble q - q\<bar> \<le> d" by (simp only: d_def)
  moreover have "d \<le> q" using True by (simp add: d_def field_simps)
  ultimately show ?thesis by linarith
next
  case False
  then show ?thesis by (simp add: toDouble_def)
qed

lemma scaled_near:
  assumes "0 < w" "0 < t" "x < t" "3 * w * t < 2 ^ 53"
  shows "\<bar>real t * toDouble (real x * toDouble (real w / real t)) - real (x * w)\<bar> < 1"
proof (cases "x = 0")
  case True
  then show ?thesis by (simp add: toDouble_def)
next
  case False
  define u :: real where "u = 1 / 2 ^ 53"
  define q where "q = real w / real t"
  define f1 where "f1 = toDouble q"
  define p where "p = real x * f1"
  define f2 where "f2 = toDouble p"
  define T where "T = real x * q"
  have u: "0 < u" "u \<le> 1" by (simp_all add: u_def)
  from assms(1,2) have q: "0 < q" by (simp add: q_def)
  from False have x: "0 < real x" by simp
  have T: "0 < T" using x q by (simp add: T_def)
  from toDouble_err[OF q] have e1: "\<bar>f1 - q\<bar> \<le> q * u" by (simp add: f1_def u_def)
  have e1': "\<bar>p - T\<bar> \<le> T * u"
  proof -
    have "p - T = real x * (f1 - q)" by (simp add: p_def T_def right_diff_distrib)
    then have "\<bar>p - T\<bar> = real x * \<bar>f1 - q\<bar>" using x by (simp add: abs_mult)
    also have "\<dots> \<le> real x * (q * u)" by (rule mult_left_mono[OF e1]) (use x in simp)
    finally show ?thesis by (simp add: T_def mult.assoc)
  qed
  have pT: "p \<le> T + T * u" using e1' by (simp add: abs_le_iff)
  have "q * u < q" using q by (simp add: u_def)
  with e1 have "0 < f1" by (simp add: abs_le_iff)
  with x have p: "0 < p" by (simp add: p_def)
  from toDouble_err[OF p] have e2: "\<bar>f2 - p\<bar> \<le> p * u" by (simp add: f2_def u_def)
  have "p * u \<le> (T + T * u) * u" by (rule mult_right_mono[OF pT]) (use u in simp)
  also have "T * u * u \<le> T * u * 1" by (rule mult_left_mono) (use u T in simp_all)
  then have "(T + T * u) * u \<le> 2 * (T * u)" by (simp add: distrib_right)
  finally have e2': "\<bar>f2 - p\<bar> \<le> 2 * (T * u)" using e2 by simp
  have "\<bar>f2 - T\<bar> \<le> \<bar>f2 - p\<bar> + \<bar>p - T\<bar>" by simp
  with e1' e2' have near: "\<bar>f2 - T\<bar> \<le> 3 * (T * u)" by simp
  have tT: "real t * T = real (x * w)" using assms(2) by (simp add: T_def q_def)
  have "real x * real w < real t * real w"
    by (rule mult_strict_right_mono) (use assms in simp_all)
  then have xw: "real (x * w) < real (t * w)" by simp
  have "real (3 * w * t) < 2 ^ 53" using assms(4) by (metis of_nat_less_iff of_nat_numeral of_nat_power)
  then have small: "3 * (real w * real t) * u < 1" by (simp add: u_def mult.assoc)
  have tpos: "0 < real t" using assms(2) by simp
  have "real t * \<bar>f2 - T\<bar> \<le> real t * (3 * (T * u))"
    by (rule mult_left_mono[OF near]) (use tpos in simp)
  also have "\<dots> = 3 * (real t * T) * u" by simp
  also have "\<dots> = 3 * real (x * w) * u" by (simp only: tT)
  also have "\<dots> \<le> 3 * real (t * w) * u"
    by (rule mult_right_mono, rule mult_left_mono) (use xw u in simp_all)
  also have "\<dots> < 1" using small by (simp add: mult.commute)
  finally have "real t * \<bar>f2 - T\<bar> < 1" .
  moreover have "real t * \<bar>f2 - T\<bar> = \<bar>real t * f2 - real t * T\<bar>"
    using tpos by (simp add: abs_mult right_diff_distrib[symmetric])
  ultimately have "\<bar>real t * f2 - real (x * w)\<bar> < 1" by (simp only: tT)
  then show ?thesis by (simp only: f2_def p_def f1_def q_def)
qed

lemma scaled_floor:
  assumes "0 < w" "0 < t" "x < t" "3 * w * t < 2 ^ 53"
  defines "s \<equiv> nat \<lfloor>toDouble (real x * toDouble (real w / real t))\<rfloor>"
  shows "s = x * w div t \<or> (t dvd x * w \<and> s + 1 = x * w div t)"
proof -
  define y where "y = toDouble (real x * toDouble (real w / real t))"
  define N where "N = x * w"
  define k where "k = N div t"
  define m where "m = N mod t"
  have y0: "0 \<le> y" unfolding y_def by (rule toDouble_nonneg)
  have s: "s = nat \<lfloor>y\<rfloor>" by (simp add: s_def y_def)
  have N: "N = k * t + m" by (simp add: k_def m_def)
  have m: "m < t" using assms(2) by (simp add: m_def)
  have tpos: "0 < real t" using assms(2) by simp
  from scaled_near[OF assms(1-4)] have near: "\<bar>real t * y - real N\<bar> < 1"
    by (simp only: y_def N_def)
  have up: "y < real k + 1"
  proof -
    from m N have "N + 1 \<le> k * t + t" by simp
    then have "real (N + 1) \<le> real (k * t + t)" by (rule of_nat_mono)
    then have le: "real N + 1 \<le> real (k * t + t)" by simp
    from near have "real t * y < real N + 1" by (simp add: abs_less_iff)
    also have "real N + 1 \<le> real (k * t + t)" by (rule le)
    also have "\<dots> = real t * (real k + 1)" by (simp add: algebra_simps)
    finally show ?thesis using tpos by simp
  qed
  then have fl_up: "\<lfloor>y\<rfloor> \<le> int k" by (simp add: floor_le_iff)
  show ?thesis
  proof (cases "m = 0")
    case False
    then have "real (k * t) \<le> real N - 1" unfolding N
      by (simp add: Suc_leI)
    moreover from near have "real N - 1 < real t * y" by (simp add: abs_less_iff)
    ultimately have "real t * real k < real t * y" by (simp add: mult.commute)
    then have "real k < y" using tpos by simp
    then have "int k \<le> \<lfloor>y\<rfloor>" by (simp add: le_floor_iff)
    with fl_up have "\<lfloor>y\<rfloor> = int k" by simp
    then show ?thesis by (simp add: s k_def N_def)
  next
    case True
    then have dv: "t dvd x * w" by (simp add: m_def N_def dvd_eq_mod_eq_0)
    from True have Nk: "real N = real t * real k" by (simp add: N)
    from near have "real N - 1 < real t * y" by (simp add: abs_less_iff)
    moreover have "real t * (real k - 1) \<le> real N - 1"
      using assms(2) by (simp add: Nk right_diff_distrib)
    ultimately have "real t * (real k - 1) < real t * y" by simp
    then have "real k - 1 < y" using tpos by simp
    then have lo: "int k - 1 \<le> \<lfloor>y\<rfloor>" by (simp add: le_floor_iff)
    from y0 have "0 \<le> \<lfloor>y\<rfloor>" by simp
    with lo fl_up have "nat \<lfloor>y\<rfloor> = k \<or> nat \<lfloor>y\<rfloor> + 1 = k" by linarith
    with dv show ?thesis by (auto simp: s k_def N_def)
  qed
qed

lemma scaled_floor_less:
  assumes "0 < w" "0 < t" "x < t" "3 * w * t < 2 ^ 53"
  shows "nat \<lfloor>toDouble (real x * toDouble (real w / real t))\<rfloor> < w"
proof -
  have "x * w < w * t" using assms(1,3) by simp
  then have "x * w div t < w" by (rule less_mult_imp_div_less)
  with scaled_floor[OF assms] show ?thesis by auto
qed

lemma scaled_floor_same:
  assumes "w < 2 ^ 53" "0 < w" "x < w"
  shows "nat \<lfloor>toDouble (real x * toDouble (real w / real w))\<rfloor> = x"
proof -
  from assms have "x < 2 ^ 53" by simp
  then have "toDouble (real x) = real x" by (rule toDouble_nat)
  moreover have "toDouble 1 = 1" using toDouble_nat[of 1] by simp
  ultimately show ?thesis using assms(2) by simp
qed

section \<open>Resizing\<close>

text \<open>
  The sampled source index: its column and row, which are the exact quotients or one
  less, and its bound for a well-formed image.
\<close>

lemma srcIndex_split:
  "srcIndex img tw th x y = (srcRow img th y * width img + srcColumn img tw x) * 4"
  by (simp add: srcIndex_def srcRow_def srcColumn_def Let_def)

lemma srcColumn_cases:
  assumes "wellFormed img" "0 < tw" "x < nat tw" "3 * width img * nat tw < 2 ^ 53"
  shows "srcColumn img tw x = x * width img div nat tw
     \<or> (nat tw dvd x * width img \<and> srcColumn img tw x + 1 = x * width img div nat tw)"
proof -
  from assms(2) have t: "real_of_int tw = real (nat tw)" "0 < nat tw" by simp_all
  from assms(1) have w: "0 < width img" by (simp add: wellFormed_def)
  show ?thesis
    unfolding srcColumn_def t(1) by (rule scaled_floor[OF w t(2) assms(3,4)])
qed

lemma srcRow_cases:
  assumes "wellFormed img" "0 < th" "y < nat th" "3 * height img * nat th < 2 ^ 53"
  shows "srcRow img th y = y * height img div nat th
     \<or> (nat th dvd y * height img \<and> srcRow img th y + 1 = y * height img div nat th)"
proof -
  from assms(2) have t: "real_of_int th = real (nat th)" "0 < nat th" by simp_all
  from assms(1) have h: "0 < height img" by (simp add: wellFormed_def)
  show ?thesis
    unfolding srcRow_def t(1) by (rule scaled_floor[OF h t(2) assms(3,4)])
qed

lemma scaled_less: "x < t \<Longrightarrow> 0 < (w::nat) \<Longrightarrow> (x * w) div t < w"
proof -
  assume a: "x < t" "0 < w"
  then have "x * w < w * t" by simp
  then show ?thesis by (rule less_mult_imp_div_less)
qed

lemma srcColumn_less:
  assumes "wellFormed img" "0 < tw" "x < nat tw" "3 * width img * nat tw < 2 ^ 53"
  shows "srcColumn img tw x < width img"
proof -
  from assms(1) have "0 < width img" by (simp add: wellFormed_def)
  with assms(3) have "x * width img div nat tw < width img" by (rule scaled_less)
  with srcColumn_cases[OF assms] show ?thesis by auto
qed

lemma srcRow_less:
  assumes "wellFormed img" "0 < th" "y < nat th" "3 * height img * nat th < 2 ^ 53"
  shows "srcRow img th y < height img"
proof -
  from assms(1) have "0 < height img" by (simp add: wellFormed_def)
  with assms(3) have "y * height img div nat th < height img" by (rule scaled_less)
  with srcRow_cases[OF assms] show ?thesis by auto
qed

lemma srcColumn_same:
  assumes "0 < width img" "width img < 2 ^ 53" "x < width img"
  shows "srcColumn img (int (width img)) x = x"
  unfolding srcColumn_def using scaled_floor_same[OF assms(2,1,3)] by simp

lemma srcRow_same:
  assumes "0 < height img" "height img < 2 ^ 53" "y < height img"
  shows "srcRow img (int (height img)) y = y"
  unfolding srcRow_def using scaled_floor_same[OF assms(2,1,3)] by simp

lemma srcIndex_in_bounds:
  assumes "wellFormed img" "0 < tw" "0 < th" "inDoubleRange img tw th"
    "x < nat tw" "y < nat th"
  shows "srcIndex img tw th x y + 3 < length (data img)"
proof -
  let ?W = "width img" and ?H = "height img"
  let ?sx = "srcColumn img tw x" and ?sy = "srcRow img th y"
  from assms(1) have wf: "length (data img) = 4 * ?W * ?H"
    by (simp add: wellFormed_def)
  from assms(4) have rg: "3 * ?W * nat tw < 2 ^ 53" "3 * ?H * nat th < 2 ^ 53"
    by (simp_all add: inDoubleRange_def)
  have sx: "?sx < ?W" by (rule srcColumn_less[OF assms(1,2,5) rg(1)])
  have sy: "?sy < ?H" by (rule srcRow_less[OF assms(1,3,6) rg(2)])
  from sy have "Suc ?sy \<le> ?H" by simp
  then have "Suc ?sy * ?W \<le> ?H * ?W" by (rule mult_le_mono1)
  with sx have "?sy * ?W + ?sx < ?H * ?W" by simp
  moreover define n where "n = ?sy * ?W + ?sx"
  moreover define k where "k = ?H * ?W"
  ultimately have "n < k" by simp
  then have "n * 4 + 3 < k * 4" by simp
  moreover have "4 * ?W * ?H = k * 4" by (simp add: k_def)
  ultimately show ?thesis
    unfolding srcIndex_split wf n_def[symmetric] by simp
qed

lemma samplePixel_wf:
  assumes "wellFormed img" "0 < tw" "0 < th" "inDoubleRange img tw th"
    "x < nat tw" "y < nat th"
  shows "samplePixel img tw th x y = Inr (sampledCell img tw th x y)"
  using srcIndex_in_bounds[OF assms]
  by (simp add: samplePixel_def sampledCell_def sampledAlpha_def sampledColor_def Let_def)

lemma collect_map_Inr: "\<forall>x\<in>set xs. f x = Inr (h x) \<Longrightarrow> collect (map f xs) = Inr (map h xs)"
  by (induction xs) simp_all

lemma resize_wf:
  assumes "wellFormed img" "0 < tw" "0 < th" "inDoubleRange img tw th"
  shows "resizeImageNearestNeighbor img tw th =
           Inr (map (\<lambda>y. map (\<lambda>x. sampledCell img tw th x y) [0..<nat tw]) [0..<nat th])"
proof -
  have row: "\<forall>y\<in>set [0..<nat th].
      collect (map (\<lambda>x. samplePixel img tw th x y) [0..<nat tw])
        = Inr (map (\<lambda>x. sampledCell img tw th x y) [0..<nat tw])"
  proof
    fix y assume "y \<in> set [0..<nat th]"
    then have y: "y < nat th" by simp
    show "collect (map (\<lambda>x. samplePixel img tw th x y) [0..<nat tw])
        = Inr (map (\<lambda>x. sampledCell img tw th x y) [0..<nat tw])"
      by (rule collect_map_Inr) (simp add: samplePixel_wf[OF assms _ y])
  qed
  from assms have "width img \<noteq> 0" "height img \<noteq> 0" by (simp_all add: wellFormed_def)
  with assms(2,3) show ?thesis
    by (simp add: resizeImageNearestNeighbor_def collect_map_Inr[OF row])
qed

lemma flatten_row:
  "concat (map (\<lambda>c. case c of None \<Rightarrow> [] | Some p \<Rightarrow> [p]) (map (\<lambda>x. sampledCell img tw th x y) xs))
     = map (\<lambda>(x, y). sampledColor img tw th x y)
         (filter (\<lambda>(x, y). \<not> sampledAlpha img tw th x y < 128) (map (\<lambda>x. (x, y)) xs))"
  by (induction xs) (simp_all add: sampledCell_def)

lemma flattenPixels_Cons:
  "flattenPixels (row # rows) =
     concat (map (\<lambda>c. case c of None \<Rightarrow> [] | Some p \<Rightarrow> [p]) row) @ flattenPixels rows"
  by (simp add: flattenPixels_def)

lemma uniform_rectangular: "\<forall>row\<in>set grid. length row = w \<Longrightarrow> rectangular grid"
  by (cases grid) (auto simp: rectangular_def)

lemma flatten_sampled:
  "flattenPixels (map (\<lambda>y. map (\<lambda>x. sampledCell img tw th x y) xs) ys)
     = map (\<lambda>(x, y). sampledColor img tw th x y)
         (filter (\<lambda>(x, y). \<not> sampledAlpha img tw th x y < 128)
            (concat (map (\<lambda>y. map (\<lambda>x. (x, y)) xs) ys)))"
proof (induction ys)
  case Nil
  show ?case by (simp add: flattenPixels_def)
next
  case (Cons y ys)
  show ?case
    by (simp only: list.map flattenPixels_Cons flatten_row Cons.IH concat.simps
          filter_append map_append)
qed

lemma quantize_null_cells:
  assumes "rectangular grid" and "quantizeColorsMedianCut grid m = Inr res"
    and "y < length grid" "x < length (grid ! y)"
  shows "pixelData res ! y ! x = None \<longleftrightarrow> grid ! y ! x = None"
  using quantize_cells[OF assms(1,2)] assms(3,4) by auto

text \<open>
  The source pixel sampled for an output cell, without reference to the rounding: its
  column is \<open>x * width div targetWidth\<close>, or one less when the division is exact, and
  likewise its row. At the size of the source every cell samples the pixel at its own
  position.
\<close>

lemma sampled_position:
  assumes "wellFormed img" "0 < tw" "0 < th" "inDoubleRange img tw th"
    "x < nat tw" "y < nat th"
  shows "\<exists>sx sy. srcIndex img tw th x y = (sy * width img + sx) * 4
     \<and> sx < width img \<and> sy < height img
     \<and> (sx = x * width img div nat tw
          \<or> (nat tw dvd x * width img \<and> sx + 1 = x * width img div nat tw))
     \<and> (sy = y * height img div nat th
          \<or> (nat th dvd y * height img \<and> sy + 1 = y * height img div nat th))"
proof -
  from assms(4) have rg: "3 * width img * nat tw < 2 ^ 53" "3 * height img * nat th < 2 ^ 53"
    by (simp_all add: inDoubleRange_def)
  note cx = srcColumn_cases[OF assms(1,2,5) rg(1)] and cy = srcRow_cases[OF assms(1,3,6) rg(2)]
  note lx = srcColumn_less[OF assms(1,2,5) rg(1)] and ly = srcRow_less[OF assms(1,3,6) rg(2)]
  from srcIndex_split[of img tw th x y] lx ly cx cy show ?thesis by blast
qed

lemma same_size_position:
  assumes "wellFormed img" "width img < 2 ^ 53" "height img < 2 ^ 53"
    "x < width img" "y < height img"
  shows "srcIndex img (int (width img)) (int (height img)) x y = (y * width img + x) * 4"
proof -
  from assms(1) have wf: "0 < width img" "0 < height img" by (simp_all add: wellFormed_def)
  show ?thesis
    unfolding srcIndex_split srcColumn_same[OF wf(1) assms(2,4)] srcRow_same[OF wf(2) assms(3,5)] ..
qed

text \<open>
  Transparency in the synchronous pipeline. For a well-formed image and positive target
  sizes the resizing returns a grid of the target size. A cell of it is null exactly
  when the source pixel it samples has alpha below 128. The population that the
  quantizer computes the palette from (the non-null cells) consists of the colours of
  the sampled pixels with alpha at least 128, in row-major order: a pixel below 128
  contributes nothing. The pipeline stores a result whenever no more colours are asked
  than the resized grid has (or at most two), and in every result it stores the output
  grid is null at exactly these positions. This pipeline has no dithering step.
\<close>

theorem fallback_transparency:
  assumes "wellFormed img" and "0 < tw" and "0 < th" and "inDoubleRange img tw th"
  shows "\<exists>grid. resizeImageNearestNeighbor img tw th = Inr grid
     \<and> length grid = nat th
     \<and> (\<forall>y<nat th. length (grid ! y) = nat tw
           \<and> (\<forall>x<nat tw. (grid ! y ! x = None) = (sampledAlpha img tw th x y < 128)))
     \<and> flattenPixels grid =
         map (\<lambda>(x, y). sampledColor img tw th x y)
           (filter (\<lambda>(x, y). \<not> sampledAlpha img tw th x y < 128) (rasterOrder (nat tw) (nat th)))
     \<and> (\<forall>st mc. uploadedImage st = Some img \<longrightarrow>
            (enoughColours grid mc \<longrightarrow> (\<exists>out. processImageFallback st tw th mc = Processed out))
          \<and> (\<forall>out. processImageFallback st tw th mc = Processed out \<longrightarrow>
                (\<forall>y<nat th. \<forall>x<nat tw.
                   (pixelData out ! y ! x = None) = (sampledAlpha img tw th x y < 128))))"
proof -
  define grid where "grid = map (\<lambda>y. map (\<lambda>x. sampledCell img tw th x y) [0..<nat tw]) [0..<nat th]"
  have rs: "resizeImageNearestNeighbor img tw th = Inr grid"
    unfolding grid_def by (rule resize_wf[OF assms])
  have len: "length grid = nat th" by (simp add: grid_def)
  have cells: "\<And>x y. y < nat th \<Longrightarrow> x < nat tw \<Longrightarrow> grid ! y ! x = sampledCell img tw th x y"
    by (simp add: grid_def)
  have rows: "\<And>y. y < nat th \<Longrightarrow> length (grid ! y) = nat tw" by (simp add: grid_def)
  have rect: "rectangular grid"
    by (rule uniform_rectangular[of _ "nat tw"]) (auto simp: grid_def)
  have nulls: "\<And>x y. y < nat th \<Longrightarrow> x < nat tw \<Longrightarrow>
      (grid ! y ! x = None) = (sampledAlpha img tw th x y < 128)"
    by (simp add: cells sampledCell_def)
  have pop: "flattenPixels grid =
         map (\<lambda>(x, y). sampledColor img tw th x y)
           (filter (\<lambda>(x, y). \<not> sampledAlpha img tw th x y < 128) (rasterOrder (nat tw) (nat th)))"
    unfolding grid_def rasterOrder_def by (rule flatten_sampled)
  have runs: "\<And>st mc. uploadedImage st = Some img \<Longrightarrow> enoughColours grid mc \<Longrightarrow>
      \<exists>out. processImageFallback st tw th mc = Processed out"
  proof -
    fix st :: appState and mc
    assume st: "uploadedImage st = Some img" and en: "enoughColours grid mc"
    from quantize_returns[OF en] obtain q where "quantizeColorsMedianCut grid mc = Inr q" ..
    with st rs show "\<exists>out. processImageFallback st tw th mc = Processed out"
      by (simp add: processImageFallback_def)
  qed
  have pipe: "\<And>st mc out y x. uploadedImage st = Some img \<Longrightarrow>
            processImageFallback st tw th mc = Processed out \<Longrightarrow> y < nat th \<Longrightarrow> x < nat tw \<Longrightarrow>
               (pixelData out ! y ! x = None) = (sampledAlpha img tw th x y < 128)"
  proof -
    fix st :: appState and mc out y x
    assume st: "uploadedImage st = Some img" and pr: "processImageFallback st tw th mc = Processed out"
      and y: "y < nat th" and x: "x < nat tw"
    from pr st rs obtain q where q: "quantizeColorsMedianCut grid mc = Inr q"
      and out: "pixelData out = pixelData q"
      by (auto simp: processImageFallback_def split: sum.splits)
    from quantize_null_cells[OF rect q] y x len rows
    have "(pixelData q ! y ! x = None) = (grid ! y ! x = None)" by simp
    with nulls[OF y x] out
    show "(pixelData out ! y ! x = None) = (sampledAlpha img tw th x y < 128)" by simp
  qed
  from rs len rows nulls pop runs pipe show ?thesis by blast
qed

lemmas double_eval =
  toDouble_def[of 0] toDouble_def[of 1] toDouble_def[of "numeral i"]
  toDouble_def[of "1 / numeral j"] toDouble_def[of "numeral i / numeral j"]
  binExponent.simps[of 1] binExponent.simps[of "numeral i"]
  binExponent.simps[of "1 / numeral j"] binExponent.simps[of "numeral i / numeral j"]
  pow2_def roundHalfEven_def
  for i j

lemmas resize_defs =
  resizeImageNearestNeighbor_def samplePixel_def srcIndex_def double_eval Let_def

lemmas pipeline_defs =
  handleProcessImage_def processImageFallback_def processImageWithWorker_def

lemmas worker_defs =
  medianCutOptimized_def medianCutBuckets.simps getColorRanges_def splitBucket_def bucketHex_def
  roundDiv_def rgbToHex_def channelHex_def toString16.simps hexDigit_def Let_def

text \<open>
  Claim C6, as amended. On the 2 by 2 bitmap red, red, blue, blue with target size 2 by
  2 and \<open>maxColors = 2\<close> the synchronous pipeline stores the grid
  \<open>[[#ff0000, #ff0000], [#0000ff, #0000ff]]\<close> and the palette \<open>#0000ff\<close>, \<open>#ff0000\<close>:
  the two input colours, blue first, because the box of the colours below the midpoint
  of the red channel comes first. The median cut of the worker gives the same order.
\<close>

theorem end_to_end_red_blue:
  "processImageFallback
      \<lparr>uploadedImage = Some redBlueImage, statePalette = pal0, workerReady = wr, imageWorker = iw\<rparr>
      2 2 2 =
    Processed \<lparr>pixelData = [[Some (HexCell ''#ff0000''), Some (HexCell ''#ff0000'')],
                             [Some (HexCell ''#0000ff''), Some (HexCell ''#0000ff'')]],
               palette = [\<lparr>hex = ''#0000ff'', label = []\<rparr>, \<lparr>hex = ''#ff0000'', label = []\<rparr>],
               outWidth = 2, outHeight = 2\<rparr>
   \<and> medianCutOptimized (colorList (data redBlueImage)) 2 = [''#0000ff'', ''#ff0000'']"
  by (simp add: pipeline_defs resize_defs redBlueImage_def upt_conv_Cons quantizer_defs worker_defs)

text \<open>The palette of that run is not red followed by blue.\<close>

theorem end_to_end_palette_order_counterexample:
  "processImageFallback
      \<lparr>uploadedImage = Some redBlueImage, statePalette = [], workerReady = False, imageWorker = False\<rparr>
      2 2 2 =
    Processed \<lparr>pixelData = [[Some (HexCell ''#ff0000''), Some (HexCell ''#ff0000'')],
                             [Some (HexCell ''#0000ff''), Some (HexCell ''#0000ff'')]],
               palette = [\<lparr>hex = ''#0000ff'', label = []\<rparr>, \<lparr>hex = ''#ff0000'', label = []\<rparr>],
               outWidth = 2, outHeight = 2\<rparr>
   \<and> map hex [\<lparr>hex = ''#0000ff'', label = []\<rparr>, \<lparr>hex = ''#ff0000'', label = []\<rparr>]
       \<noteq> [''#ff0000'', ''#0000ff'']"
  by (simp add: pipeline_defs resize_defs redBlueImage_def upt_conv_Cons quantizer_defs)

text \<open>
  Without a worker, a request with palette lock and the locked palette \<open>#ff0000\<close>,
  \<open>#0000ff\<close> on the same bitmap (target 4 by 4) yields the computed palette
  \<open>#0000ff\<close>, \<open>#ff0000\<close>, not the locked one.
\<close>

theorem locked_palette_fallback_counterexample:
  "handleProcessImage lockedState lockedForm =
     Processed \<lparr>pixelData = 
      [[Some (HexCell ''#ff0000''), Some (HexCell ''#ff0000''), Some (HexCell ''#ff0000''), Some (HexCell ''#ff0000'')],
       [Some (HexCell ''#ff0000''), Some (HexCell ''#ff0000''), Some (HexCell ''#ff0000''), Some (HexCell ''#ff0000'')],
       [Some (HexCell ''#0000ff''), Some (HexCell ''#0000ff''), Some (HexCell ''#0000ff''), Some (HexCell ''#0000ff'')],
       [Some (HexCell ''#0000ff''), Some (HexCell ''#0000ff''), Some (HexCell ''#0000ff''), Some (HexCell ''#0000ff'')]],
                palette = [\<lparr>hex = ''#0000ff'', label = []\<rparr>, \<lparr>hex = ''#ff0000'', label = []\<rparr>],
                outWidth = 4, outHeight = 4\<rparr>
   \<and> paletteLockToggle lockedForm
   \<and> map hex (statePalette lockedState) = [''#ff0000'', ''#0000ff'']
   \<and> map hex [\<lparr>hex = ''#0000ff'', label = []\<rparr>, \<lparr>hex = ''#ff0000'', label = []\<rparr>]
       \<noteq> map hex (statePalette lockedState)"
  by (simp add: pipeline_defs lockedState_def lockedForm_def resize_defs redBlueImage_def
        upt_conv_Cons quantizer_defs)

section \<open>handleProcessImage\<close>

text \<open>
  Claim C7. When the form holds three numbers and a size is outside 4 to 80 or the
  colour count outside 2 to 12, handleProcessImage only shows an error notification and
  returns: nothing is posted to the worker and neither the resizing nor the
  quantization runs. The message names the first failed check.
\<close>

theorem invalid_request_rejected:
  assumes "importWidth form = Some tw" and "importHeight form = Some th"
    and "importMaxColors form = Some mc" and "outOfBounds tw th mc"
  shows "handleProcessImage st form =
           Rejected (if uploadedImage st = None then ''Please upload an image first.''
                     else if tw < 4 \<or> th < 4 \<or> 80 < tw \<or> 80 < th
                          then ''Grid size must be between 4 and 80.''
                          else ''Max colors must be between 2 and 12.'')"
  using assms by (auto simp: handleProcessImage_def outOfBounds_def)

text \<open>A width of 81 is rejected.\<close>

theorem invalid_request_rejected_witness:
  "importWidth (lockedForm\<lparr>importWidth := Some 81\<rparr>) = Some 81
   \<and> importHeight (lockedForm\<lparr>importWidth := Some 81\<rparr>) = Some 4
   \<and> importMaxColors (lockedForm\<lparr>importWidth := Some 81\<rparr>) = Some 2
   \<and> outOfBounds 81 4 2
   \<and> handleProcessImage lockedState (lockedForm\<lparr>importWidth := Some 81\<rparr>)
        = Rejected ''Grid size must be between 4 and 80.''"
proof -
  have h: "importWidth (lockedForm\<lparr>importWidth := Some 81\<rparr>) = Some 81"
    "importHeight (lockedForm\<lparr>importWidth := Some 81\<rparr>) = Some 4"
    "importMaxColors (lockedForm\<lparr>importWidth := Some 81\<rparr>) = Some 2"
    "outOfBounds 81 4 2"
    by (simp_all add: lockedForm_def outOfBounds_def)
  from invalid_request_rejected[OF h, of lockedState] h show ?thesis
    by (simp add: lockedState_def)
qed

lemma processImage_palette_locked:
  "usePaletteLock req \<Longrightarrow> lockedPalette req = Some lp \<Longrightarrow> lp \<noteq> [] \<Longrightarrow>
     processImage_palette req resized = lp"
  by (simp add: processImage_palette_def quantizeColorsOptimized_palette_def)

lemma handleProcessImage_valid:
  assumes "validForm form tw th mc" and "uploadedImage st = Some img"
  shows "handleProcessImage st form =
     (if workerReady st \<and> imageWorker st
      then PostedToWorker \<lparr>imageData = img, targetWidth = tw, targetHeight = th, maxColors = mc,
             detailBoost = (case detailBoostSlider form of None \<Rightarrow> 0 | Some v \<Rightarrow> v),
             resizeMode = (if resizeModeSelect form = [] then ''fill'' else resizeModeSelect form),
             usePaletteLock = paletteLockToggle form,
             lockedPalette = (if paletteLockToggle form \<and> statePalette st \<noteq> []
                              then Some (map hex (statePalette st)) else None),
             enableDithering = ditheringToggle form, autoTemplateMode = autoTemplateToggle form\<rparr>
      else processImageFallback st tw th mc)"
  using assms
  by (auto simp: handleProcessImage_def validForm_def outOfBounds_def processImageWithWorker_def Let_def)

text \<open>
  Claim C4, as amended. For a valid request with palette lock set and a non-empty
  palette in the state: when the worker is ready, the request posted to it carries the
  hex strings of that palette in their order, and the palette of the worker's result is
  this list, whatever the resized pixels are; when there is no worker, the synchronous
  pipeline runs with the sizes and the colour count only, and the palette it stores is
  the one quantizeColorsMedianCut computes from the resized image.
\<close>

theorem locked_palette_by_strategy:
  assumes "validForm form tw th mc" and "uploadedImage st = Some img"
    and "paletteLockToggle form" and "statePalette st \<noteq> []"
  shows "(workerReady st \<and> imageWorker st \<longrightarrow>
            (\<exists>req. handleProcessImage st form = PostedToWorker req
                 \<and> usePaletteLock req
                 \<and> lockedPalette req = Some (map hex (statePalette st))
                 \<and> (\<forall>resized. processImage_palette req resized = map hex (statePalette st))))
       \<and> (\<not> (workerReady st \<and> imageWorker st) \<longrightarrow>
            handleProcessImage st form = processImageFallback st tw th mc
            \<and> (\<forall>out. handleProcessImage st form = Processed out \<longrightarrow>
                 (\<exists>grid q. resizeImageNearestNeighbor img tw th = Inr grid
                        \<and> quantizeColorsMedianCut grid mc = Inr q
                        \<and> palette out = palette q)))"
proof (intro conjI impI)
  assume w: "workerReady st \<and> imageWorker st"
  let ?req = "\<lparr>imageData = img, targetWidth = tw, targetHeight = th, maxColors = mc,
             detailBoost = (case detailBoostSlider form of None \<Rightarrow> 0 | Some v \<Rightarrow> v),
             resizeMode = (if resizeModeSelect form = [] then ''fill'' else resizeModeSelect form),
             usePaletteLock = paletteLockToggle form,
             lockedPalette = (if paletteLockToggle form \<and> statePalette st \<noteq> []
                              then Some (map hex (statePalette st)) else None),
             enableDithering = ditheringToggle form, autoTemplateMode = autoTemplateToggle form\<rparr>"
  have post: "handleProcessImage st form = PostedToWorker ?req"
    using handleProcessImage_valid[OF assms(1,2)] w by simp
  have lk: "usePaletteLock ?req" "lockedPalette ?req = Some (map hex (statePalette st))"
    using assms(3,4) by simp_all
  have "\<forall>resized. processImage_palette ?req resized = map hex (statePalette st)"
    using processImage_palette_locked[OF lk] assms(4) by simp
  with post lk show "\<exists>req. handleProcessImage st form = PostedToWorker req
                 \<and> usePaletteLock req
                 \<and> lockedPalette req = Some (map hex (statePalette st))
                 \<and> (\<forall>resized. processImage_palette req resized = map hex (statePalette st))"
    by blast
next
  assume nw: "\<not> (workerReady st \<and> imageWorker st)"
  show fb: "handleProcessImage st form = processImageFallback st tw th mc"
    using handleProcessImage_valid[OF assms(1,2)] nw by simp
  show "\<forall>out. handleProcessImage st form = Processed out \<longrightarrow>
                 (\<exists>grid q. resizeImageNearestNeighbor img tw th = Inr grid
                        \<and> quantizeColorsMedianCut grid mc = Inr q
                        \<and> palette out = palette q)"
    unfolding fb using assms(2)
    by (auto simp: processImageFallback_def split: sum.splits)
qed

text \<open>Both strategies on the red and blue bitmap with the locked palette red, blue.\<close>

theorem locked_palette_by_strategy_witness:
  "validForm lockedForm 4 4 2 \<and> uploadedImage lockedState = Some redBlueImage
   \<and> paletteLockToggle lockedForm \<and> statePalette lockedState \<noteq> []
   \<and> (\<exists>req. handleProcessImage (lockedState\<lparr>workerReady := True, imageWorker := True\<rparr>) lockedForm
               = PostedToWorker req
            \<and> processImage_palette req [] = [''#ff0000'', ''#0000ff''])
   \<and> handleProcessImage lockedState lockedForm = processImageFallback lockedState 4 4 2"
proof -
  have h: "validForm lockedForm 4 4 2" "paletteLockToggle lockedForm"
    by (simp_all add: validForm_def lockedForm_def outOfBounds_def)
  have s: "uploadedImage lockedState = Some redBlueImage" "statePalette lockedState \<noteq> []"
    "uploadedImage (lockedState\<lparr>workerReady := True, imageWorker := True\<rparr>) = Some redBlueImage"
    "statePalette (lockedState\<lparr>workerReady := True, imageWorker := True\<rparr>) \<noteq> []"
    by (simp_all add: lockedState_def)
  from locked_palette_by_strategy[OF h(1) s(3) h(2) s(4)]
  obtain req where "handleProcessImage (lockedState\<lparr>workerReady := True, imageWorker := True\<rparr>) lockedForm
               = PostedToWorker req"
    "\<forall>resized. processImage_palette req resized
       = map hex (statePalette (lockedState\<lparr>workerReady := True, imageWorker := True\<rparr>))"
    by auto
  then have a: "\<exists>req. handleProcessImage (lockedState\<lparr>workerReady := True, imageWorker := True\<rparr>) lockedForm
               = PostedToWorker req
            \<and> processImage_palette req [] = [''#ff0000'', ''#0000ff'']"
    by (auto simp: lockedState_def)
  from locked_palette_by_strategy[OF h(1) s(1) h(2) s(2)]
  have "handleProcessImage lockedState lockedForm = processImageFallback lockedState 4 4 2"
    by (simp add: lockedState_def)
  with h s a show ?thesis by simp
qed

text \<open>
  The worker's splitBucket, unlike splitBox, sorts the colours on the channel and cuts
  at the count median.
\<close>

lemma splitBucket_count_median:
  "splitBucket colors channel = (bucket1, bucket2) \<Longrightarrow>
     bucket1 @ bucket2 = sort_key (chan channel) colors
     \<and> length bucket1 = length colors div 2
     \<and> length bucket2 = length colors - length colors div 2"
  by (auto simp: splitBucket_def Let_def)

text \<open>
  The colour list of the worker includes the colour of a transparent pixel, and the
  palette it computes has an entry for it.
\<close>

lemma worker_population_example:
  "colorList (data halfClearImage) = [\<lparr>r = 9, g = 9, b = 9\<rparr>, \<lparr>r = 1, g = 2, b = 3\<rparr>]
   \<and> medianCutOptimized (colorList (data halfClearImage)) 2 = [''#010203'', ''#090909'']"
  by (simp add: worker_defs halfClearImage_def)

section \<open>Concrete instances\<close>

text \<open>
  Two identical colours and \<open>maxColors = 2\<close>: the palette has two entries for one
  distinct colour.
\<close>

theorem quantize_distinct_counterexample:
  "quantizeColorsMedianCut [[Some grey, Some grey]] 2 =
     Inr \<lparr>pixelData = [[Some (HexCell ''#0a0a0a''), Some (HexCell ''#0a0a0a'')]],
          palette = [\<lparr>hex = ''#0a0a0a'', label = []\<rparr>, \<lparr>hex = ''#0a0a0a'', label = []\<rparr>]\<rparr>
   \<and> card (set (flattenPixels [[Some grey, Some grey]])) = 1
   \<and> \<not> length [\<lparr>hex = ''#0a0a0a'', label = []\<rparr>, \<lparr>hex = ''#0a0a0a'', label = []\<rparr>]
         \<le> card (set (flattenPixels [[Some grey, Some grey]]))"
  by (simp add: quantizer_defs grey_def)

text \<open>The length bound on the same grid.\<close>

theorem quantize_palette_length_witness:
  "flattenPixels [[Some grey, Some grey]] \<noteq> [] \<and> (1::int) \<le> 2
   \<and> (\<exists>res. quantizeColorsMedianCut [[Some grey, Some grey]] 2 = Inr res
          \<and> length (palette res) = 2)"
proof -
  have h: "flattenPixels [[Some grey, Some grey]] \<noteq> []" "(1::int) \<le> 2"
    by (simp_all add: flattenPixels_def)
  have e: "enoughColours [[Some grey, Some grey]] 2" by (simp add: enoughColours_def)
  from quantize_palette_length[OF h] e obtain res where
    "quantizeColorsMedianCut [[Some grey, Some grey]] 2 = Inr res" "int (length (palette res)) = min 2 21"
    by auto
  then have "\<exists>res. quantizeColorsMedianCut [[Some grey, Some grey]] 2 = Inr res
          \<and> length (palette res) = 2" by auto
  with h show ?thesis by simp
qed

text \<open>
  Claim C2. splitBox on a list of one colour returns an empty first box: its second
  test moves the colour back that the first one had moved. The quantizer splits such
  boxes: for a 1 by 1 opaque image resized to 4 by 4, that is sixteen identical
  colours, \<open>maxColors = 3\<close> gives the boxes of sizes 0, 1 and 15 and the palette
  \<open>#000000\<close>, \<open>#0a141e\<close>, \<open>#0a141e\<close>, whose first entry is the average of the empty
  box; with \<open>maxColors = 4\<close> the next split pushes \<^verbatim>\<open>undefined\<close> into a box and the
  pipeline ends in its \<^verbatim>\<open>catch\<close>.
\<close>

theorem splitBox_leaves_empty_box:
  "splitBox [Some \<lparr>r = 10, g = 20, b = 30\<rparr>] = Inr ([], [Some \<lparr>r = 10, g = 20, b = 30\<rparr>])
   \<and> handleProcessImage solidState (solidForm 3) =
       Processed \<lparr>pixelData = [[Some (HexCell ''#0a141e''), Some (HexCell ''#0a141e''), Some (HexCell ''#0a141e''), Some (HexCell ''#0a141e'')],
                                [Some (HexCell ''#0a141e''), Some (HexCell ''#0a141e''), Some (HexCell ''#0a141e''), Some (HexCell ''#0a141e'')],
                                [Some (HexCell ''#0a141e''), Some (HexCell ''#0a141e''), Some (HexCell ''#0a141e''), Some (HexCell ''#0a141e'')],
                                [Some (HexCell ''#0a141e''), Some (HexCell ''#0a141e''), Some (HexCell ''#0a141e''), Some (HexCell ''#0a141e'')]],
                  palette = [\<lparr>hex = ''#000000'', label = []\<rparr>, \<lparr>hex = ''#0a141e'', label = []\<rparr>,
                             \<lparr>hex = ''#0a141e'', label = []\<rparr>],
                  outWidth = 4, outHeight = 4\<rparr>
   \<and> handleProcessImage solidState (solidForm 4) = ProcessingError"
  by (simp add: pipeline_defs solidState_def solidForm_def solidImage_def resize_defs
        upt_conv_Cons quantizer_defs)

text \<open>
  Four colours with red 0, 0, 0, 10: the cut at the value midpoint 5 gives sizes 3 and
  1, not 2 and 2.
\<close>

theorem splitBox_count_median_counterexample:
  "splitBox [Some \<lparr>r = 0, g = 0, b = 0\<rparr>, Some \<lparr>r = 0, g = 0, b = 0\<rparr>,
             Some \<lparr>r = 0, g = 0, b = 0\<rparr>, Some \<lparr>r = 10, g = 0, b = 0\<rparr>] =
     Inr ([Some \<lparr>r = 0, g = 0, b = 0\<rparr>, Some \<lparr>r = 0, g = 0, b = 0\<rparr>, Some \<lparr>r = 0, g = 0, b = 0\<rparr>],
          [Some \<lparr>r = 10, g = 0, b = 0\<rparr>])
   \<and> length [Some \<lparr>r = 0, g = 0, b = 0\<rparr>, Some \<lparr>r = 0, g = 0, b = 0\<rparr>, Some \<lparr>r = 0, g = 0, b = 0\<rparr>]
       \<noteq> (4 + 1) div 2
   \<and> length [Some \<lparr>r = 10, g = 0, b = 0\<rparr>] \<noteq> 4 div 2"
  by (simp add: quantizer_defs)

text \<open>The split of the same four colours.\<close>

theorem splitBox_value_midpoint_witness:
  "2 \<le> length [\<lparr>r = 0, g = 0, b = 0\<rparr>, \<lparr>r = 0, g = 0, b = 0\<rparr>, \<lparr>r = 0, g = 0, b = 0\<rparr>, \<lparr>r = 10, g = 0, b = 0\<rparr>]
   \<and> list_all isByteColor [\<lparr>r = 0, g = 0, b = 0\<rparr>, \<lparr>r = 0, g = 0, b = 0\<rparr>, \<lparr>r = 0, g = 0, b = 0\<rparr>, \<lparr>r = 10, g = 0, b = 0\<rparr>]
   \<and> (\<exists>box1 box2.
         splitBox (map Some [\<lparr>r = 0, g = 0, b = 0\<rparr>, \<lparr>r = 0, g = 0, b = 0\<rparr>, \<lparr>r = 0, g = 0, b = 0\<rparr>, \<lparr>r = 10, g = 0, b = 0\<rparr>])
           = Inr (map Some box1, map Some box2)
         \<and> box1 \<noteq> [] \<and> box2 \<noteq> [] \<and> length box1 + length box2 = 4)"
proof -
  let ?qs = "[\<lparr>r = 0, g = 0, b = 0\<rparr>, \<lparr>r = 0, g = 0, b = 0\<rparr>, \<lparr>r = 0, g = 0, b = 0\<rparr>, \<lparr>r = 10, g = 0, b = 0\<rparr>]"
  have h: "2 \<le> length ?qs" "\<forall>p\<in>set ?qs. isByteColor p" by (simp_all add: isByteColor_def)
  from splitBox_value_midpoint[OF h] obtain box1 box2 where
    "splitBox (map Some ?qs) = Inr (map Some box1, map Some box2)"
    "box1 \<noteq> []" "box2 \<noteq> []" "length box1 + length box2 = length ?qs"
    by blast
  then have "\<exists>box1 box2. splitBox (map Some ?qs) = Inr (map Some box1, map Some box2)
         \<and> box1 \<noteq> [] \<and> box2 \<noteq> [] \<and> length box1 + length box2 = 4"
    by auto
  with h show ?thesis by (simp add: isByteColor_def)
qed

text \<open>A transparent pixel followed by an opaque one, in the synchronous pipeline.\<close>

lemma fallback_transparency_example:
  "wellFormed halfClearImage \<and> (0::int) < 2 \<and> (0::int) < 1 \<and> inDoubleRange halfClearImage 2 1
   \<and> (\<exists>grid. resizeImageNearestNeighbor halfClearImage 2 1 = Inr grid
          \<and> grid ! 0 ! 0 = None
          \<and> flattenPixels grid = [\<lparr>r = 1, g = 2, b = 3\<rparr>])"
proof -
  have h: "wellFormed halfClearImage" "(0::int) < 2" "(0::int) < 1" "inDoubleRange halfClearImage 2 1"
    by (simp_all add: wellFormed_def inDoubleRange_def halfClearImage_def)
  have a: "sampledAlpha halfClearImage 2 1 0 0 < 128" "\<not> sampledAlpha halfClearImage 2 1 1 0 < 128"
    "sampledColor halfClearImage 2 1 1 0 = \<lparr>r = 1, g = 2, b = 3\<rparr>"
    by (simp_all add: sampledAlpha_def sampledColor_def srcIndex_def double_eval Let_def
          halfClearImage_def)
  have ro: "rasterOrder (nat 2) (nat 1) = [(0, 0), (1, 0)]"
    by (simp add: rasterOrder_def upt_conv_Cons)
  from fallback_transparency[OF h] obtain grid where
    g: "resizeImageNearestNeighbor halfClearImage 2 1 = Inr grid"
    and n: "\<forall>y<nat 1. length (grid ! y) = nat 2
           \<and> (\<forall>x<nat 2. (grid ! y ! x = None) = (sampledAlpha halfClearImage 2 1 x y < 128))"
    and f: "flattenPixels grid =
         map (\<lambda>(x, y). sampledColor halfClearImage 2 1 x y)
           (filter (\<lambda>(x, y). \<not> sampledAlpha halfClearImage 2 1 x y < 128) (rasterOrder (nat 2) (nat 1)))"
    by blast
  from n a(1) have "grid ! 0 ! 0 = None" by simp
  moreover from f have "flattenPixels grid = [\<lparr>r = 1, g = 2, b = 3\<rparr>]"
    unfolding ro using a by simp
  ultimately show ?thesis using g h by blast
qed

text \<open>
  A source of width 30 resized to width 22: in doubles \<open>30 / 22\<close> is rounded down and
  \<open>11\<close> times it is just below 15, so column 11 samples source column 14, where the
  exact quotient is 15.
\<close>

lemma double_rounding_example:
  "srcColumn \<lparr>width = 30, height = h, data = d\<rparr> 22 11 = 14 \<and> (11 * 30) div 22 = (15::nat)"
  by (simp add: srcColumn_def double_eval Let_def)

text \<open>
  Claim C5. A source pixel with alpha below 128 is to give null in the output grid and
  to contribute no colour to the population the quantizer computes the palette from.
  The quantizer of the worker does not keep to the second part. For the 4 by 4 image
  whose first pixel is transparent green and whose other pixels are opaque red,
  requested at 4 by 4 with two colours, a ready worker is sent the request, and the
  palette it computes from these pixels is \<open>#df2000\<close>, \<open>#ff0000\<close>: the first entry
  averages seven reds with the transparent green, a colour no opaque pixel has. Without
  a worker the synchronous pipeline gives null at that cell and a palette of red only.
\<close>

theorem worker_counts_transparent_pixel:
  "data cutoutImage ! 3 < 128
   \<and> handleProcessImage (cutoutState True) (solidForm 2) = PostedToWorker cutoutRequest
   \<and> processImage_palette cutoutRequest (data cutoutImage) = [''#df2000'', ''#ff0000'']
   \<and> handleProcessImage (cutoutState False) (solidForm 2) =
       Processed \<lparr>pixelData = [[None, Some (HexCell ''#ff0000''), Some (HexCell ''#ff0000''), Some (HexCell ''#ff0000'')],
                                [Some (HexCell ''#ff0000''), Some (HexCell ''#ff0000''), Some (HexCell ''#ff0000''), Some (HexCell ''#ff0000'')],
                                [Some (HexCell ''#ff0000''), Some (HexCell ''#ff0000''), Some (HexCell ''#ff0000''), Some (HexCell ''#ff0000'')],
                                [Some (HexCell ''#ff0000''), Some (HexCell ''#ff0000''), Some (HexCell ''#ff0000''), Some (HexCell ''#ff0000'')]],
                  palette = [\<lparr>hex = ''#ff0000'', label = []\<rparr>, \<lparr>hex = ''#ff0000'', label = []\<rparr>],
                  outWidth = 4, outHeight = 4\<rparr>"
proof -
  have "data cutoutImage ! 3 < 128" by (simp add: cutoutImage_def)
  moreover have "handleProcessImage (cutoutState True) (solidForm 2) = PostedToWorker cutoutRequest"
    by (simp add: pipeline_defs cutoutState_def solidForm_def cutoutRequest_def)
  moreover have "processImage_palette cutoutRequest (data cutoutImage) = [''#df2000'', ''#ff0000'']"
    by (simp add: processImage_palette_def quantizeColorsOptimized_palette_def cutoutRequest_def
          cutoutImage_def worker_defs)
  moreover have "handleProcessImage (cutoutState False) (solidForm 2) =
       Processed \<lparr>pixelData = [[None, Some (HexCell ''#ff0000''), Some (HexCell ''#ff0000''), Some (HexCell ''#ff0000'')],
                                [Some (HexCell ''#ff0000''), Some (HexCell ''#ff0000''), Some (HexCell ''#ff0000''), Some (HexCell ''#ff0000'')],
                                [Some (HexCell ''#ff0000''), Some (HexCell ''#ff0000''), Some (HexCell ''#ff0000''), Some (HexCell ''#ff0000'')],
                                [Some (HexCell ''#ff0000''), Some (HexCell ''#ff0000''), Some (HexCell ''#ff0000''), Some (HexCell ''#ff0000'')]],
                  palette = [\<lparr>hex = ''#ff0000'', label = []\<rparr>, \<lparr>hex = ''#ff0000'', label = []\<rparr>],
                  outWidth = 4, outHeight = 4\<rparr>"
    by (simp add: pipeline_defs cutoutState_def solidForm_def cutoutImage_def resize_defs
          upt_conv_Cons quantizer_defs)
  ultimately show ?thesis by blast
qed

text \<open>A 2 by 2 grid with two null cells.\<close>

theorem quantize_grid_shape_witness:
  "rectangular [[Some grey, None], [None, Some grey]]
   \<and> (\<exists>res. quantizeColorsMedianCut [[Some grey, None], [None, Some grey]] 2 = Inr res
          \<and> length (pixelData res) = 2 \<and> pixelData res ! 0 ! 1 = None
          \<and> (\<exists>e\<in>set (palette res). pixelData res ! 0 ! 0 = Some (HexCell (hex e))))"
proof -
  let ?G = "[[Some grey, None], [None, Some grey]]"
  have h: "rectangular ?G" by (simp add: rectangular_def)
  have e: "enoughColours ?G 2" by (simp add: enoughColours_def)
  from quantize_grid_shape[OF h, of 2] e obtain res where
    q: "quantizeColorsMedianCut ?G 2 = Inr res" by auto
  with quantize_grid_shape[OF h, of 2] have
    s: "length (pixelData res) = length ?G
          \<and> (\<forall>y<length ?G. length (pixelData res ! y) = length (?G ! y)
               \<and> (\<forall>x<length (?G ! y).
                     (pixelData res ! y ! x = None \<longleftrightarrow> ?G ! y ! x = None)
                   \<and> (\<forall>c. pixelData res ! y ! x = Some c \<longrightarrow>
                          (\<exists>e\<in>set (palette res). c = HexCell (hex e)))))"
    by blast
  have y0: "(0::nat) < length ?G" by simp
  from s y0 have r0: "\<forall>x<length (?G ! 0).
                     (pixelData res ! 0 ! x = None \<longleftrightarrow> ?G ! 0 ! x = None)
                   \<and> (\<forall>c. pixelData res ! 0 ! x = Some c \<longrightarrow>
                          (\<exists>e\<in>set (palette res). c = HexCell (hex e)))"
    by blast
  have x0: "(0::nat) < length (?G ! 0)" and x1: "(1::nat) < length (?G ! 0)" by simp_all
  from r0 x0 have c1: "(pixelData res ! 0 ! 0 = None) = (?G ! 0 ! 0 = None)"
    and c2: "\<forall>c. pixelData res ! 0 ! 0 = Some c \<longrightarrow> (\<exists>e\<in>set (palette res). c = HexCell (hex e))"
    by blast+
  from r0 x1 have c0: "(pixelData res ! 0 ! 1 = None) = (?G ! 0 ! 1 = None)" by blast
  from c1 obtain c where c: "pixelData res ! 0 ! 0 = Some c" by auto
  with c2 have "\<exists>e\<in>set (palette res). pixelData res ! 0 ! 0 = Some (HexCell (hex e))" by auto
  moreover from c0 have "pixelData res ! 0 ! 1 = None" by simp
  moreover from s have "length (pixelData res) = 2" by simp
  ultimately show ?thesis using q h by blast
qed

text \<open>A 2 by 2 grid of nulls.\<close>

theorem quantize_empty_population_witness:
  "allNull [[None, None], [None, None]]
   \<and> quantizeColorsMedianCut [[None, None], [None, None]] 5 =
       Inr \<lparr>pixelData = [[None, None], [None, None]],
            palette = [\<lparr>hex = ''#ffffff'', label = ''White''\<rparr>]\<rparr>"
proof -
  have h: "allNull [[None, None], [None, None]]" by (simp add: allNull_def)
  from quantize_empty_population[OF h, of 5] h show ?thesis by simp
qed

end
